theory Spec2Isabelle
  imports Main "HOL-Library.Product_Lexorder"
begin

section \<open>Values of the host language\<close>

text \<open>
  The ledger is the React component \<open>PersonalMoneyTracker\<close> of \<open>src/app/page.tsx\<close> together
  with the payment form of \<open>components/partial-payment-form\<close>. Its values are modelled so:
  \<^item> a JavaScript string is the list of its UTF-16 code units;
  \<^item> a \<open>number\<close> is an IEEE 754 binary64 value of whole magnitude, an infinity or \<open>NaN\<close>
    (type \<open>number\<close> below), with the rounding of binary64 addition written out;
  \<^item> a \<open>Date\<close> is its time value in milliseconds (valid dates only);
  \<^item> the system clock is a function: \<open>clk k\<close> is what the \<open>k\<close>-th reading of the clock
    (\<open>Date.now()\<close> or \<open>new Date()\<close>) during one handler call returns, counted from 0.
\<close>

type_synonym jsstring = "nat list"

type_synonym clock = "nat \<Rightarrow> int"

definition js :: "string \<Rightarrow> jsstring" where
  "js s = map of_char s"

text \<open>
  The code units that \<open>String.prototype.trim\<close> strips and that \<open>\s\<close> matches in a regular
  expression: the WhiteSpace and LineTerminator productions of ECMAScript.
\<close>

definition isWhiteSpace :: "nat \<Rightarrow> bool" where
  "isWhiteSpace c \<longleftrightarrow>
     c \<in> {9, 10, 11, 12, 13, 32, 160, 5760, 8232, 8233, 8239, 8287, 12288, 65279}
     \<or> (8192 \<le> c \<and> c \<le> 8202)"

definition trim :: "jsstring \<Rightarrow> jsstring" where
  "trim s = rev (dropWhile isWhiteSpace (rev (dropWhile isWhiteSpace s)))"

text \<open>\<open>s.replace(/\s+/g, " ")\<close>: every maximal run of white space becomes one space.\<close>

function collapseWs :: "jsstring \<Rightarrow> jsstring" where
  "collapseWs [] = []"
| "collapseWs (c # cs) =
     (if isWhiteSpace c then 32 # collapseWs (dropWhile isWhiteSpace cs)
      else c # collapseWs cs)"
  by pat_completeness auto
termination
  by (relation "measure length") (auto simp: less_Suc_eq_le length_dropWhile_le)

text \<open>\<open>Number.prototype.toString\<close> on an integer (below \<open>10^21\<close>, as every time value is).\<close>

fun digits :: "nat \<Rightarrow> jsstring" where
  "digits n = (if n < 10 then [48 + n] else digits (n div 10) @ [48 + n mod 10])"

declare digits.simps [simp del]

definition toString :: "int \<Rightarrow> jsstring" where
  "toString i = (if i < 0 then 45 # digits (nat (- i)) else digits (nat i))"

text \<open>Reading a decimal numeral back: the inverse of \<open>digits\<close>.\<close>

definition undigits :: "jsstring \<Rightarrow> nat" where
  "undigits ds = foldl (\<lambda>acc d. 10 * acc + (d - 48)) 0 ds"

text \<open>
  \<open>normalizeName\<close> (page.tsx, line 103). \<open>String.prototype.toLowerCase\<close> is the runtime's
  Unicode case table; it is the parameter \<open>lc\<close>.
\<close>

definition normalizeName :: "(jsstring \<Rightarrow> jsstring) \<Rightarrow> jsstring \<Rightarrow> jsstring" where
  "normalizeName lc name = collapseWs (lc (trim name))"

text \<open>A lower-casing of the ASCII letters, for running the model on concrete names.\<close>

definition asciiLower :: "jsstring \<Rightarrow> jsstring" where
  "asciiLower s = map (\<lambda>c. if 65 \<le> c \<and> c \<le> 90 then c + 32 else c) s"

section \<open>Numbers\<close>

text \<open>
  Both number inputs of the page step by 1, so the amounts that enter the ledger are whole
  numbers, and sums and differences of whole binary64 values are whole, infinite or \<open>NaN\<close>.
  \<open>Num n\<close> is the finite binary64 value \<open>n\<close>; every whole number below \<open>2^53\<close> in magnitude
  is one, above that only the multiples of the unit in the last place are, and the
  arithmetic below returns no other. The two zeros are not told apart. A field that an
  old snapshot lacks (\<open>undefined\<close>) behaves as \<open>NaN\<close> in all the arithmetic and
  comparisons below.
\<close>

datatype number = Num int | PosInf | NegInf | NaN

fun whole :: "number \<Rightarrow> bool" where
  "whole (Num n) = True"
| "whole _ = False"

fun val :: "number \<Rightarrow> int" where
  "val (Num n) = n"
| "val _ = 0"

text \<open>The integers on which binary64 arithmetic is exact.\<close>

definition safe :: "int \<Rightarrow> bool" where
  "safe n \<longleftrightarrow> \<bar>n\<bar> < 2 ^ 53"

text \<open>The number of binary digits of a natural number.\<close>

fun bitlength :: "nat \<Rightarrow> nat" where
  "bitlength n = (if n = 0 then 0 else Suc (bitlength (n div 2)))"

declare bitlength.simps [simp del]

text \<open>
  Rounding to 53 significant binary digits, to nearest and ties to even; a result of
  \<open>2^1024\<close> or more is an infinity.
\<close>

definition round_magnitude :: "nat \<Rightarrow> nat" where
  "round_magnitude m =
     (if m < 2 ^ 53 then m
      else let ulp = 2 ^ (bitlength m - 53); q = m div ulp; r = m mod ulp
           in (if 2 * r < ulp \<or> (2 * r = ulp \<and> even q) then q else q + 1) * ulp)"

definition round64 :: "int \<Rightarrow> number" where
  "round64 n =
     (let m = round_magnitude (nat \<bar>n\<bar>)
      in if m \<ge> 2 ^ 1024 then (if n < 0 then NegInf else PosInf)
         else Num (if n < 0 then - int m else int m))"

fun plus64 :: "number \<Rightarrow> number \<Rightarrow> number" where
  "plus64 (Num a) (Num b) = round64 (a + b)"
| "plus64 NaN _ = NaN"
| "plus64 _ NaN = NaN"
| "plus64 PosInf NegInf = NaN"
| "plus64 NegInf PosInf = NaN"
| "plus64 PosInf _ = PosInf"
| "plus64 _ PosInf = PosInf"
| "plus64 NegInf _ = NegInf"
| "plus64 _ NegInf = NegInf"

fun negate :: "number \<Rightarrow> number" where
  "negate (Num a) = Num (- a)"
| "negate PosInf = NegInf"
| "negate NegInf = PosInf"
| "negate NaN = NaN"

definition minus64 :: "number \<Rightarrow> number \<Rightarrow> number" where
  "minus64 a b = plus64 a (negate b)"

text \<open>\<open>a < b\<close> and \<open>a <= b\<close>; every comparison with \<open>NaN\<close> is false.\<close>

fun less64 :: "number \<Rightarrow> number \<Rightarrow> bool" where
  "less64 (Num a) (Num b) = (a < b)"
| "less64 NaN _ = False"
| "less64 _ NaN = False"
| "less64 _ NegInf = False"
| "less64 PosInf _ = False"
| "less64 NegInf _ = True"
| "less64 _ PosInf = True"

definition le64 :: "number \<Rightarrow> number \<Rightarrow> bool" where
  "le64 a b \<longleftrightarrow> less64 a b \<or> (a = b \<and> a \<noteq> NaN)"

text \<open>\<open>!x\<close> on a number: zero and \<open>NaN\<close> are falsy.\<close>

definition falsy :: "number \<Rightarrow> bool" where
  "falsy a \<longleftrightarrow> a = Num 0 \<or> a = NaN"

section \<open>Data model\<close>

datatype status = Pending | Paid

record PaymentEntry =
  id_pay :: jsstring
  amount_pay :: number
  date_pay :: int
  notes_pay :: "jsstring option"

record LendingRecord =
  id_rec :: jsstring
  borrowerName :: jsstring
  amount :: number
  reason :: jsstring
  lentDate :: int
  status :: status
  notes_rec :: "jsstring option"
  paidAmount :: number
  paymentHistory :: "PaymentEntry list"
  createdAt :: int

record BorrowerSummary =
  name :: jsstring
  totalOwed :: number
  totalBorrowed :: number
  recordCount :: nat
  lastBorrowed :: int

text \<open>
  \<open>Partial<LendingRecord>\<close> as the add form fills it: every field may be missing. The form
  keeps the amount as \<open>""\<close> until a number is typed; \<open>""\<close> is \<open>None\<close> here (both are falsy,
  and \<open>"" || 0\<close> is \<open>0\<close> as \<open>undefined || 0\<close> is).
\<close>

record recordData =
  borrowerName_in :: "jsstring option"
  amount_in :: "number option"
  reason_in :: "jsstring option"
  lentDate_in :: "int option"
  notes_in :: "jsstring option"

text \<open>The toasts a handler can raise, by title; the destructive ones report a rejected input.\<close>

datatype toast =
  RecordAdded | PaymentReceived | RecordDeleted | FullyPaid | PartialPaymentReceived
  | InvalidAmount | AmountTooHigh | MissingInformation

fun destructive :: "toast \<Rightarrow> bool" where
  "destructive InvalidAmount = True"
| "destructive AmountTooHigh = True"
| "destructive MissingInformation = True"
| "destructive _ = False"

text \<open>An operation has failed when it raised a destructive toast.\<close>

fun failed :: "toast option \<Rightarrow> bool" where
  "failed None = False"
| "failed (Some t) = destructive t"

section \<open>Aggregation\<close>

text \<open>page.tsx, lines 96 to 100: \<open>reduce\<close> is a left fold, \<open>+\<close> and \<open>-\<close> are binary64.\<close>

definition totalLent :: "LendingRecord list \<Rightarrow> number" where
  "totalLent records = foldl (\<lambda>sum record. plus64 sum (amount record)) (Num 0) records"

definition totalPending :: "LendingRecord list \<Rightarrow> number" where
  "totalPending records =
     foldl (\<lambda>sum record. plus64 sum (minus64 (amount record) (paidAmount record))) (Num 0)
       (filter (\<lambda>record. status record = Pending) records)"

definition totalPaid :: "LendingRecord list \<Rightarrow> number" where
  "totalPaid records =
     foldl (\<lambda>sum record. plus64 sum (amount record)) (Num 0)
       (filter (\<lambda>record. status record = Paid) records)"

text \<open>
  A JavaScript \<open>Map\<close> with string keys: an association list in insertion order. \<open>set\<close> on a
  key that is present replaces the value where it stands; a new key goes to the end.
\<close>

type_synonym 'v jsmap = "(jsstring \<times> 'v) list"

fun map_get :: "'v jsmap \<Rightarrow> jsstring \<Rightarrow> 'v option" where
  "map_get [] k = None"
| "map_get ((k', v) # m) k = (if k' = k then Some v else map_get m k)"

fun map_set :: "'v jsmap \<Rightarrow> jsstring \<Rightarrow> 'v \<Rightarrow> 'v jsmap" where
  "map_set [] k v = [(k, v)]"
| "map_set ((k', v') # m) k v = (if k' = k then (k, v) # m else (k', v') # map_set m k v)"

definition map_values :: "'v jsmap \<Rightarrow> 'v list" where
  "map_values m = map snd m"

text \<open>The callback of the \<open>reduce\<close> of page.tsx, lines 110 to 135.\<close>

definition summaryStep ::
  "(jsstring \<Rightarrow> jsstring) \<Rightarrow> BorrowerSummary jsmap \<Rightarrow> LendingRecord \<Rightarrow> BorrowerSummary jsmap"
where
  "summaryStep lc m record =
     (let normalizedName = normalizeName lc (borrowerName record);
          displayName = trim (borrowerName record);
          existing = (case map_get m normalizedName of
                        Some s \<Rightarrow> s
                      | None \<Rightarrow> \<lparr>name = displayName, totalOwed = Num 0, totalBorrowed = Num 0,
                                 recordCount = 0, lastBorrowed = lentDate record\<rparr>);
          e1 = existing\<lparr>totalBorrowed := plus64 (totalBorrowed existing) (amount record),
                        recordCount := recordCount existing + 1\<rparr>;
          e2 = (if status record = Pending
                then e1\<lparr>totalOwed := plus64 (totalOwed e1)
                                        (minus64 (amount record) (paidAmount record))\<rparr>
                else e1);
          e3 = (if lentDate record > lastBorrowed e2
                then e2\<lparr>lastBorrowed := lentDate record\<rparr>
                else e2)
      in map_set m normalizedName e3)"

text \<open>
  \<open>Array.prototype.sort\<close> is stable. The comparator \<open>b.totalOwed - a.totalOwed\<close> is negative
  exactly when \<open>a.totalOwed\<close> is the greater, and \<open>NaN\<close> (from equal infinities) counts as
  0: without a \<open>NaN\<close> among the totals the sort is the stable sort by descending
  \<open>totalOwed\<close>, the infinities at the two ends. A \<open>NaN\<close> total compares equal to every
  other; the comparator is then consistent only if the other totals are all equal, and
  the order stays as it is. Otherwise ECMAScript leaves the order to the implementation:
  the result is \<open>None\<close>.
\<close>

fun owed_rank :: "number \<Rightarrow> nat \<times> int" where
  "owed_rank PosInf = (0, 0)"
| "owed_rank (Num n) = (1, - n)"
| "owed_rank NegInf = (2, 0)"
| "owed_rank NaN = (3, 0)"

definition sort_by_owed :: "BorrowerSummary list \<Rightarrow> BorrowerSummary list option" where
  "sort_by_owed summaries =
     (let owed = map totalOwed summaries
      in if \<not> list_ex (\<lambda>x. x = NaN) owed
         then Some (sort_key (\<lambda>s. owed_rank (totalOwed s)) summaries)
         else if list_all (\<lambda>x. list_all (\<lambda>y. x = NaN \<or> y = NaN \<or> x = y) owed) owed
         then Some summaries
         else None)"

definition borrowerSummaries ::
  "(jsstring \<Rightarrow> jsstring) \<Rightarrow> LendingRecord list \<Rightarrow> BorrowerSummary list option"
where
  "borrowerSummaries lc records =
     sort_by_owed (map_values (foldl (summaryStep lc) [] records))"

section \<open>Mutations\<close>

text \<open>
  Each handler reads the state \<open>records\<close>, calls \<open>setRecords\<close> once and raises at most one toast:
  it is a function from the record list to the new list and the toast.
\<close>

text \<open>\<open>handleAddRecord\<close> (page.tsx, line 146).\<close>

definition handleAddRecord ::
  "clock \<Rightarrow> recordData \<Rightarrow> LendingRecord list \<Rightarrow> LendingRecord list \<times> toast option"
where
  "handleAddRecord clk recordData records =
     (let newRecord =
            \<lparr>id_rec = toString (clk 0),
             borrowerName = (case borrowerName_in recordData of None \<Rightarrow> [] | Some s \<Rightarrow> trim s),
             amount = (case amount_in recordData of
                         None \<Rightarrow> Num 0
                       | Some a \<Rightarrow> if falsy a then Num 0 else a),
             reason = (case reason_in recordData of None \<Rightarrow> [] | Some s \<Rightarrow> s),
             lentDate = (case lentDate_in recordData of None \<Rightarrow> clk 1 | Some d \<Rightarrow> d),
             status = Pending,
             notes_rec = Some (case notes_in recordData of None \<Rightarrow> [] | Some s \<Rightarrow> s),
             paidAmount = Num 0,
             paymentHistory = [],
             createdAt = (case lentDate_in recordData of None \<Rightarrow> clk 2 | Some d \<Rightarrow> clk 1)\<rparr>
      in (newRecord # records, Some RecordAdded))"

text \<open>\<open>markAsPaid\<close> (page.tsx, line 167).\<close>

definition markAsPaid ::
  "jsstring \<Rightarrow> LendingRecord list \<Rightarrow> LendingRecord list \<times> toast option"
where
  "markAsPaid recordId records =
     (map (\<lambda>record. if id_rec record = recordId then record\<lparr>status := Paid\<rparr> else record)
        records,
      case find (\<lambda>r. id_rec r = recordId) records of
        Some record \<Rightarrow> Some PaymentReceived
      | None \<Rightarrow> None)"

text \<open>\<open>deleteRecord\<close> (page.tsx, line 178).\<close>

definition deleteRecord ::
  "jsstring \<Rightarrow> LendingRecord list \<Rightarrow> LendingRecord list \<times> toast option"
where
  "deleteRecord recordId records =
     (filter (\<lambda>record. id_rec record \<noteq> recordId) records, Some RecordDeleted)"

text \<open>
  \<open>handlePartialPayment\<close> (page.tsx, line 204). The callback of \<open>records.map\<close> reads the clock
  twice for each record it updates; \<open>k\<close> counts the readings made so far.
\<close>

definition updatedRecord ::
  "clock \<Rightarrow> nat \<Rightarrow> number \<Rightarrow> jsstring option \<Rightarrow> LendingRecord \<Rightarrow> LendingRecord"
where
  "updatedRecord clk k paymentAmount paymentNotes record =
     (let newPaidAmount = plus64 (paidAmount record) paymentAmount;
          newPaymentEntry = \<lparr>id_pay = toString (clk k), amount_pay = paymentAmount,
                             date_pay = clk (k + 1), notes_pay = paymentNotes\<rparr>
      in record\<lparr>paidAmount := newPaidAmount,
                paymentHistory := paymentHistory record @ [newPaymentEntry],
                status := (if le64 (amount record) newPaidAmount then Paid else Pending)\<rparr>)"

fun mapPayment ::
  "clock \<Rightarrow> nat \<Rightarrow> jsstring \<Rightarrow> number \<Rightarrow> jsstring option \<Rightarrow> LendingRecord list
     \<Rightarrow> LendingRecord list"
where
  "mapPayment clk k recordId paymentAmount paymentNotes [] = []"
| "mapPayment clk k recordId paymentAmount paymentNotes (record # records) =
     (if id_rec record = recordId
      then updatedRecord clk k paymentAmount paymentNotes record
             # mapPayment clk (k + 2) recordId paymentAmount paymentNotes records
      else record # mapPayment clk k recordId paymentAmount paymentNotes records)"

definition handlePartialPayment ::
  "clock \<Rightarrow> jsstring \<Rightarrow> number \<Rightarrow> jsstring option \<Rightarrow> LendingRecord list
     \<Rightarrow> LendingRecord list \<times> toast option"
where
  "handlePartialPayment clk recordId paymentAmount paymentNotes records =
     (mapPayment clk 0 recordId paymentAmount paymentNotes records,
      case find (\<lambda>r. id_rec r = recordId) records of
        Some record \<Rightarrow>
          (let newPaidAmount = plus64 (paidAmount record) paymentAmount;
               remainingAmount = minus64 (amount record) newPaidAmount
           in if le64 remainingAmount (Num 0) then Some FullyPaid
              else Some PartialPaymentReceived)
      | None \<Rightarrow> None)"

section \<open>Forms\<close>

text \<open>
  \<open>AddRecordForm.handleSubmit\<close> (page.tsx, line 671): \<open>!x\<close> holds of a missing value, of the
  empty string, of the number 0 and of \<open>NaN\<close>.
\<close>

definition falsy_string :: "jsstring option \<Rightarrow> bool" where
  "falsy_string s \<longleftrightarrow> s = None \<or> s = Some []"

definition falsy_number :: "number option \<Rightarrow> bool" where
  "falsy_number n \<longleftrightarrow> (case n of None \<Rightarrow> True | Some a \<Rightarrow> falsy a)"

definition AddRecordForm_handleSubmit ::
  "(recordData \<Rightarrow> 'st \<Rightarrow> 'st \<times> toast option) \<Rightarrow> recordData \<Rightarrow> 'st \<Rightarrow> 'st \<times> toast option"
where
  "AddRecordForm_handleSubmit onSubmit formData st =
     (if falsy_string (borrowerName_in formData) \<or> falsy_number (amount_in formData)
         \<or> falsy_string (reason_in formData)
      then (st, Some MissingInformation)
      else onSubmit formData st)"

text \<open>
  \<open>PartialPaymentForm.handleSubmit\<close> (partial-payment-form, line 45); \<open>amountNumber\<close> is
  \<open>Number(paymentAmount)\<close>.
\<close>

definition PartialPaymentForm_handleSubmit ::
  "LendingRecord \<Rightarrow> (number \<Rightarrow> jsstring option \<Rightarrow> 'st \<Rightarrow> 'st \<times> toast option)
     \<Rightarrow> number \<Rightarrow> jsstring \<Rightarrow> 'st \<Rightarrow> 'st \<times> toast option"
where
  "PartialPaymentForm_handleSubmit record onSubmit amountNumber paymentNotes st =
     (let remainingAmount = minus64 (amount record) (paidAmount record);
          maxPayment = remainingAmount
      in if falsy amountNumber \<or> le64 amountNumber (Num 0) then (st, Some InvalidAmount)
         else if less64 maxPayment amountNumber then (st, Some AmountTooHigh)
         else onSubmit amountNumber (if paymentNotes = [] then None else Some paymentNotes) st)"

text \<open>
  Two views sort the \<open>paymentHistory\<close> of a record that has payments by descending date
  when they render it: the payment form its record (partial-payment-form, line 163) and
  the contact detail view each pending record of the contact (page.tsx, line 895).
  \<open>Array.prototype.sort\<close> sorts in place and the array is the one the record of the store
  holds, so the store has the new order from then on.
\<close>

definition sortHistoryInPlace :: "LendingRecord \<Rightarrow> LendingRecord" where
  "sortHistoryInPlace record =
     (if length (paymentHistory record) > 0
      then record\<lparr>paymentHistory := sort_key (\<lambda>p. - date_pay p) (paymentHistory record)\<rparr>
      else record)"

definition PartialPaymentForm_render :: "LendingRecord \<Rightarrow> LendingRecord" where
  "PartialPaymentForm_render record = sortHistoryInPlace record"

text \<open>
  The contact detail view is given the records whose normalized name is that of the
  selected borrower (page.tsx, line 620).
\<close>

definition ContactDetailView_render ::
  "(jsstring \<Rightarrow> jsstring) \<Rightarrow> jsstring \<Rightarrow> LendingRecord list \<Rightarrow> LendingRecord list"
where
  "ContactDetailView_render lc selectedBorrower records =
     map (\<lambda>record.
            if normalizeName lc (borrowerName record) = normalizeName lc selectedBorrower
               \<and> status record = Pending
            then sortHistoryInPlace record
            else record)
       records"

section \<open>The operations of the ledger\<close>

text \<open>
  The operations as the page wires them: \<open><AddRecordForm onSubmit={handleAddRecord} />\<close>
  (line 280), and the payment form on the selected record with
  \<open>onSubmit={(amount, notes) => handlePartialPayment(selectedRecordForPayment.id, amount, notes)}\<close>
  (line 647). \<open>ApplyPayment\<close> is the submission of the payment form: \<open>records\<close> is the store
  at that moment, after the form has rendered.
\<close>

definition Add ::
  "clock \<Rightarrow> recordData \<Rightarrow> LendingRecord list \<Rightarrow> LendingRecord list \<times> toast option"
where
  "Add clk formData records = AddRecordForm_handleSubmit (handleAddRecord clk) formData records"

definition ApplyPayment ::
  "clock \<Rightarrow> LendingRecord \<Rightarrow> number \<Rightarrow> jsstring \<Rightarrow> LendingRecord list
     \<Rightarrow> LendingRecord list \<times> toast option"
where
  "ApplyPayment clk selectedRecordForPayment amountNumber paymentNotes records =
     PartialPaymentForm_handleSubmit selectedRecordForPayment
       (\<lambda>a n. handlePartialPayment clk (id_rec selectedRecordForPayment) a n)
       amountNumber paymentNotes records"

section \<open>Sequences of operations\<close>

text \<open>
  What the user can do with the add form, the contact detail view and the payment dialog:
  submit a new record, open the detail view of a borrower, or open the payment dialog on
  the \<open>i\<close>-th record of the list, which renders the payment form on it, and submit a
  payment. Each submission has its own clock readings. A position past the end of the
  list selects nothing.
\<close>

datatype action =
  AddAction clock recordData
| ViewContactAction jsstring
| ApplyPaymentAction clock nat number jsstring

fun step :: "(jsstring \<Rightarrow> jsstring) \<Rightarrow> LendingRecord list \<Rightarrow> action \<Rightarrow> LendingRecord list" where
  "step lc records (AddAction clk formData) = fst (Add clk formData records)"
| "step lc records (ViewContactAction selectedBorrower) =
     ContactDetailView_render lc selectedBorrower records"
| "step lc records (ApplyPaymentAction clk i amountNumber paymentNotes) =
     (if i < length records
      then let shown = records[i := PartialPaymentForm_render (records ! i)]
           in fst (ApplyPayment clk (shown ! i) amountNumber paymentNotes shown)
      else records)"

definition run :: "(jsstring \<Rightarrow> jsstring) \<Rightarrow> action list \<Rightarrow> LendingRecord list" where
  "run lc actions = foldl (step lc) [] actions"

text \<open>
  The payments of a sequence are whole when each submitted amount is a finite number;
  their size is the sum of their magnitudes.
\<close>

fun whole_payment :: "action \<Rightarrow> bool" where
  "whole_payment (ApplyPaymentAction clk i amountNumber paymentNotes) = whole amountNumber"
| "whole_payment _ = True"

fun payment_size :: "action \<Rightarrow> int" where
  "payment_size (ApplyPaymentAction clk i amountNumber paymentNotes) = \<bar>val amountNumber\<bar>"
| "payment_size _ = 0"

text \<open>The accounting invariant of a record, with the sum taken in the integers.\<close>

definition paid_is_history_sum :: "LendingRecord \<Rightarrow> bool" where
  "paid_is_history_sum r \<longleftrightarrow>
     list_all (\<lambda>e. whole (amount_pay e)) (paymentHistory r)
     \<and> paidAmount r = Num (sum_list (map (\<lambda>e. val (amount_pay e)) (paymentHistory r)))"

text \<open>
  The invariant as the induction over a sequence carries it: the paid amount is also
  between 0 and the size \<open>B\<close> of the payments made so far.
\<close>

definition within_budget :: "int \<Rightarrow> LendingRecord \<Rightarrow> bool" where
  "within_budget B r \<longleftrightarrow>
     paid_is_history_sum r \<and> 0 \<le> val (paidAmount r) \<and> val (paidAmount r) \<le> B"

text \<open>
  A record collection is whole when every amount and paid amount is a finite number; its
  magnitude is the sum of the magnitudes of all of them. Below \<open>2^53\<close> no sum or difference
  taken over the collection is rounded.
\<close>

definition whole_ledger :: "LendingRecord list \<Rightarrow> bool" where
  "whole_ledger records = list_all (\<lambda>r. whole (amount r) \<and> whole (paidAmount r)) records"

definition magnitude :: "LendingRecord list \<Rightarrow> int" where
  "magnitude records = sum_list (map (\<lambda>r. \<bar>val (amount r)\<bar> + \<bar>val (paidAmount r)\<bar>) records)"

section \<open>Borrower summaries, as the specification words them\<close>

text \<open>
  Trimming removes the white space before the first and after the last character that is
  not white space; collapsing writes one space for every run of white space. The identity
  of a name is its trimmed, lower-cased, collapsed form.
\<close>

fun strip_leading :: "jsstring \<Rightarrow> jsstring" where
  "strip_leading [] = []"
| "strip_leading (c # cs) = (if isWhiteSpace c then strip_leading cs else c # cs)"

fun strip_trailing :: "jsstring \<Rightarrow> jsstring" where
  "strip_trailing [] = []"
| "strip_trailing (c # cs) =
     (if isWhiteSpace c \<and> strip_trailing cs = [] then [] else c # strip_trailing cs)"

definition spec_trim :: "jsstring \<Rightarrow> jsstring" where
  "spec_trim s = strip_trailing (strip_leading s)"

fun squeeze :: "bool \<Rightarrow> jsstring \<Rightarrow> jsstring" where
  "squeeze in_run [] = []"
| "squeeze in_run (c # cs) =
     (if isWhiteSpace c then (if in_run then squeeze True cs else 32 # squeeze True cs)
      else c # squeeze False cs)"

definition spec_identity :: "(jsstring \<Rightarrow> jsstring) \<Rightarrow> jsstring \<Rightarrow> jsstring" where
  "spec_identity lc nm = squeeze False (lc (spec_trim nm))"

text \<open>
  The identity classes are the identities in the order in which they first occur; the
  members of a class are the records with that identity, in list order; a summary is
  computed from the members of its class alone, with sums taken in the integers.
\<close>

fun first_seen :: "'a list \<Rightarrow> 'a list" where
  "first_seen [] = []"
| "first_seen (x # xs) = x # removeAll x (first_seen xs)"

definition identity_classes :: "(jsstring \<Rightarrow> jsstring) \<Rightarrow> LendingRecord list \<Rightarrow> jsstring list"
where
  "identity_classes lc records = first_seen (map (\<lambda>r. spec_identity lc (borrowerName r)) records)"

definition class_members ::
  "(jsstring \<Rightarrow> jsstring) \<Rightarrow> LendingRecord list \<Rightarrow> jsstring \<Rightarrow> LendingRecord list"
where
  "class_members lc records k = filter (\<lambda>r. spec_identity lc (borrowerName r) = k) records"

definition class_summary :: "LendingRecord list \<Rightarrow> BorrowerSummary" where
  "class_summary members =
     \<lparr>name = spec_trim (borrowerName (hd members)),
      totalOwed = Num (sum_list (map (\<lambda>r. val (amount r) - val (paidAmount r))
                    (filter (\<lambda>r. status r = Pending) members))),
      totalBorrowed = Num (sum_list (map (\<lambda>r. val (amount r)) members)),
      recordCount = length members,
      lastBorrowed = Max (set (map lentDate members))\<rparr>"

definition spec_summaries ::
  "(jsstring \<Rightarrow> jsstring) \<Rightarrow> LendingRecord list \<Rightarrow> BorrowerSummary list"
where
  "spec_summaries lc records =
     map (\<lambda>k. class_summary (class_members lc records k)) (identity_classes lc records)"

section \<open>Concrete inputs\<close>

definition tick :: clock where
  "tick k = 1700000000000 + int k"

definition lunch :: LendingRecord where
  "lunch = \<lparr>id_rec = js ''1'', borrowerName = js ''Rahul'', amount = Num 500,
            reason = js ''Lunch'', lentDate = 100, status = Pending, notes_rec = Some [],
            paidAmount = Num 200,
            paymentHistory = [\<lparr>id_pay = js ''2'', amount_pay = Num 200, date_pay = 150,
                               notes_pay = None\<rparr>],
            createdAt = 100\<rparr>"

definition taxi :: LendingRecord where
  "taxi = \<lparr>id_rec = js ''7'', borrowerName = js ''Amit  Kumar'', amount = Num 100,
           reason = js ''Taxi'', lentDate = 300, status = Pending, notes_rec = Some [],
           paidAmount = Num 0, paymentHistory = [], createdAt = 300\<rparr>"

definition coffee :: LendingRecord where
  "coffee = \<lparr>id_rec = js ''8'', borrowerName = js ''amit kumar'', amount = Num 50,
             reason = js ''Coffee'', lentDate = 250, status = Pending, notes_rec = Some [],
             paidAmount = Num 0, paymentHistory = [], createdAt = 250\<rparr>"

text \<open>Records at the edge of the exact range: \<open>2^53\<close> is 9007199254740992.\<close>

definition whale :: LendingRecord where
  "whale = \<lparr>id_rec = js ''11'', borrowerName = js ''Vik'', amount = Num 9007199254740992,
            reason = js ''House'', lentDate = 400, status = Pending, notes_rec = Some [],
            paidAmount = Num 0, paymentHistory = [], createdAt = 400\<rparr>"

definition penny :: LendingRecord where
  "penny = \<lparr>id_rec = js ''12'', borrowerName = js ''Vik'', amount = Num 1,
            reason = js ''Sweet'', lentDate = 500, status = Pending, notes_rec = Some [],
            paidAmount = Num 0, paymentHistory = [], createdAt = 500\<rparr>"

definition grand :: LendingRecord where
  "grand = \<lparr>id_rec = js ''13'', borrowerName = js ''Vik'', amount = Num 9007199254740994,
            reason = js ''Land'', lentDate = 600, status = Pending, notes_rec = Some [],
            paidAmount = Num 9007199254740992,
            paymentHistory = [\<lparr>id_pay = js ''14'', amount_pay = Num 9007199254740992,
                               date_pay = 650, notes_pay = None\<rparr>],
            createdAt = 600\<rparr>"

definition odd_loan :: LendingRecord where
  "odd_loan = \<lparr>id_rec = js ''15'', borrowerName = js ''Vik'', amount = Num 9007199254740996,
               reason = js ''Farm'', lentDate = 700, status = Pending, notes_rec = Some [],
               paidAmount = Num 1,
               paymentHistory = [\<lparr>id_pay = js ''16'', amount_pay = Num 1, date_pay = 750,
                                  notes_pay = None\<rparr>],
               createdAt = 700\<rparr>"

text \<open>Two records with one id, as two submissions at one clock reading leave them.\<close>

definition twin_y :: LendingRecord where
  "twin_y = \<lparr>id_rec = js ''5'', borrowerName = js ''Sita'', amount = Num 100,
             reason = js ''Books'', lentDate = 800, status = Pending, notes_rec = Some [],
             paidAmount = Num 0, paymentHistory = [], createdAt = 800\<rparr>"

definition twin_x :: LendingRecord where
  "twin_x = \<lparr>id_rec = js ''5'', borrowerName = js ''Gita'', amount = Num 50,
             reason = js ''Pens'', lentDate = 800, status = Pending, notes_rec = Some [],
             paidAmount = Num 0, paymentHistory = [], createdAt = 800\<rparr>"

definition form_rahul :: recordData where
  "form_rahul = \<lparr>borrowerName_in = Some (js '' Rahul ''), amount_in = Some (Num 500),
                 reason_in = Some (js ''Lunch''), lentDate_in = Some 100,
                 notes_in = Some []\<rparr>"

definition form_blank :: recordData where
  "form_blank = \<lparr>borrowerName_in = Some (js '' ''), amount_in = Some (Num 500),
                 reason_in = Some (js ''Lunch''), lentDate_in = Some 100,
                 notes_in = Some []\<rparr>"

definition form_negative :: recordData where
  "form_negative = \<lparr>borrowerName_in = Some (js ''Rahul''), amount_in = Some (Num (- 5)),
                    reason_in = Some (js ''Lunch''), lentDate_in = Some 100,
                    notes_in = Some []\<rparr>"

definition form_grand :: recordData where
  "form_grand = \<lparr>borrowerName_in = Some (js ''Vik''), amount_in = Some (Num 9007199254740994),
                 reason_in = Some (js ''Land''), lentDate_in = Some 600,
                 notes_in = Some []\<rparr>"

definition scenario :: "action list" where
  "scenario = [AddAction tick form_rahul,
               ApplyPaymentAction tick 0 (Num 200) [],
               ViewContactAction (js ''RAHUL''),
               ApplyPaymentAction tick 0 (Num 300) []]"

definition scenario_grand :: "action list" where
  "scenario_grand = [AddAction tick form_grand,
                     ApplyPaymentAction tick 0 (Num 9007199254740992) [],
                     ApplyPaymentAction tick 0 (Num 1) []]"

section \<open>Auxiliary facts\<close>

lemma round64_exact: "safe n \<Longrightarrow> round64 n = Num n"
proof -
  assume "safe n"
  then have small: "nat \<bar>n\<bar> < 2 ^ 53"
    by (simp add: safe_def nat_less_iff)
  then have m: "round_magnitude (nat \<bar>n\<bar>) = nat \<bar>n\<bar>"
    by (simp add: round_magnitude_def)
  have "nat \<bar>n\<bar> < (2::nat) ^ 1024"
    using small by (rule less_le_trans) simp
  then have "\<not> (2::nat) ^ 1024 \<le> nat \<bar>n\<bar>"
    by (simp only: not_le)
  then show ?thesis
    by (simp add: round64_def m Let_def)
qed

lemma plus64_exact: "safe (a + b) \<Longrightarrow> plus64 (Num a) (Num b) = Num (a + b)"
  by (simp add: round64_exact)

lemma minus64_exact: "safe (a - b) \<Longrightarrow> minus64 (Num a) (Num b) = Num (a - b)"
  by (simp add: minus64_def round64_exact)

lemma whole_val: "whole x \<Longrightarrow> x = Num (val x)"
  by (cases x) simp_all

lemma safe_mono: "\<bar>a\<bar> \<le> b \<Longrightarrow> b < 2 ^ 53 \<Longrightarrow> safe a"
  by (simp add: safe_def)

lemma bitlength_lower: "0 < m \<Longrightarrow> 2 ^ (bitlength m - 1) \<le> m"
proof (induction m rule: bitlength.induct)
  case (1 n)
  show ?case
  proof (cases "n div 2 = 0")
    case True
    with "1.prems" have "n = 1" by (simp add: div_eq_0_iff) 
    then show ?thesis by (simp add: bitlength.simps)
  next
    case False
    then have pos: "0 < n div 2" by simp
    from "1.prems" have n0: "n \<noteq> 0" by simp
    from "1.IH" [OF n0 pos] have ih: "2 ^ (bitlength (n div 2) - 1) \<le> n div 2" .
    have "0 < bitlength (n div 2)"
      using pos by (subst bitlength.simps) simp
    then have bl: "bitlength (n div 2) = Suc (bitlength (n div 2) - 1)"
      by simp
    have "bitlength n - 1 = bitlength (n div 2)"
      using n0 by (subst bitlength.simps) simp
    then have "(2::nat) ^ (bitlength n - 1) = 2 * 2 ^ (bitlength (n div 2) - 1)"
      using bl by (metis power_Suc)
    also have "\<dots> \<le> 2 * (n div 2)"
      using ih by simp
    also have "\<dots> \<le> n"
      by simp
    finally show ?thesis .
  qed
qed

lemma round_magnitude_pos: "0 < m \<Longrightarrow> 0 < round_magnitude m"
proof -
  assume pos: "0 < m"
  show ?thesis
  proof (cases "m < 2 ^ 53")
    case True
    with pos show ?thesis by (simp add: round_magnitude_def)
  next
    case False
    let ?ulp = "(2::nat) ^ (bitlength m - 53)"
    have "?ulp \<le> 2 ^ (bitlength m - 1)"
      by (rule power_increasing) simp_all
    also have "\<dots> \<le> m"
      using pos by (rule bitlength_lower)
    finally have "?ulp \<le> m" .
    then have "0 < m div ?ulp"
      by (simp add: div_greater_zero_iff)
    then show ?thesis
      using False by (simp add: round_magnitude_def Let_def)
  qed
qed

lemma round64_sign: "less64 (round64 n) (Num 0) \<longleftrightarrow> n < 0"
proof (cases "n < 0")
  case True
  then have "0 < round_magnitude (nat \<bar>n\<bar>)"
    by (intro round_magnitude_pos) simp
  then have "- int (round_magnitude (nat \<bar>n\<bar>)) < 0"
    by simp
  with True show ?thesis
    by (simp only: round64_def Let_def if_True less64.simps split: if_split) simp
next
  case False
  have "\<not> int (round_magnitude (nat \<bar>n\<bar>)) < 0"
    by simp
  with False show ?thesis
    by (simp only: round64_def Let_def if_False less64.simps split: if_split) simp
qed

lemma comparator_sign:
  assumes "a \<noteq> NaN" and "b \<noteq> NaN"
  shows "less64 (minus64 b a) (Num 0) \<longleftrightarrow> owed_rank a < owed_rank b"
  using assms
  by (cases a; cases b) (simp_all add: minus64_def round64_sign)

lemma foldl_plus64_exact:
  assumes "list_all (\<lambda>r. whole (f r)) xs"
    and "\<bar>a\<bar> + sum_list (map (\<lambda>r. \<bar>val (f r)\<bar>) xs) < 2 ^ 53"
  shows "foldl (\<lambda>sum r. plus64 sum (f r)) (Num a) xs = Num (a + sum_list (map (\<lambda>r. val (f r)) xs))"
  using assms
proof (induction xs arbitrary: a)
  case Nil
  then show ?case by simp
next
  case (Cons x xs)
  from Cons.prems(1) have wx: "f x = Num (val (f x))" and wxs: "list_all (\<lambda>r. whole (f r)) xs"
    by (simp_all add: whole_val)
  have nonneg: "0 \<le> sum_list (map (\<lambda>r. \<bar>val (f r)\<bar>) xs)"
    by (rule sum_list_nonneg) auto
  have "safe (a + val (f x))"
    using Cons.prems(2) nonneg by (simp add: safe_def)
  then have first: "plus64 (Num a) (f x) = Num (a + val (f x))"
    by (subst wx) (rule plus64_exact)
  have bound: "\<bar>a + val (f x)\<bar> + sum_list (map (\<lambda>r. \<bar>val (f r)\<bar>) xs) < 2 ^ 53"
    using Cons.prems(2) by simp
  show ?case
    using Cons.IH [OF wxs bound] by (simp add: first)
qed

lemmas eval_numbers =
  round64_def round_magnitude_def bitlength.simps minus64_def le64_def falsy_def Let_def

lemmas eval_defs =
  run_def Add_def AddRecordForm_handleSubmit_def handleAddRecord_def falsy_string_def
  falsy_number_def ApplyPayment_def PartialPaymentForm_handleSubmit_def handlePartialPayment_def
  PartialPaymentForm_render_def sortHistoryInPlace_def updatedRecord_def tick_def toString_def digits.simps js_def
  trim_def isWhiteSpace_def

lemma sum_list_filter_le:
  "(\<And>x. 0 \<le> f x) \<Longrightarrow> sum_list (map f (filter P xs)) \<le> sum_list (map f xs)" for f :: "'a \<Rightarrow> int"
  by (induction xs) (auto intro: add_increasing)

lemma whole_ledger_filter: "whole_ledger records \<Longrightarrow> whole_ledger (filter P records)"
  by (simp add: whole_ledger_def list_all_iff)

lemma magnitude_filter: "magnitude (filter P records) \<le> magnitude records"
  unfolding magnitude_def by (rule sum_list_filter_le) simp

lemma amounts_le_magnitude:
  "sum_list (map (\<lambda>r. \<bar>val (amount r)\<bar>) records) \<le> magnitude records"
  unfolding magnitude_def by (rule sum_list_mono) simp

lemma balances_le_magnitude:
  "sum_list (map (\<lambda>r. \<bar>val (amount r) - val (paidAmount r)\<bar>) records) \<le> magnitude records"
  unfolding magnitude_def by (rule sum_list_mono) simp

lemma member_le_magnitude:
  "r \<in> set records \<Longrightarrow> \<bar>val (amount r)\<bar> + \<bar>val (paidAmount r)\<bar> \<le> magnitude records"
  unfolding magnitude_def by (rule member_le_sum_list) auto

lemma balance_exact:
  assumes "whole (amount r)" and "whole (paidAmount r)"
    and "\<bar>val (amount r)\<bar> + \<bar>val (paidAmount r)\<bar> < 2 ^ 53"
  shows "minus64 (amount r) (paidAmount r) = Num (val (amount r) - val (paidAmount r))"
proof -
  have "safe (val (amount r) - val (paidAmount r))"
    using assms(3) by (simp add: safe_def)
  then have "minus64 (Num (val (amount r))) (Num (val (paidAmount r)))
               = Num (val (amount r) - val (paidAmount r))"
    by (rule minus64_exact)
  then show ?thesis
    using whole_val [OF assms(1)] whole_val [OF assms(2)] by simp
qed

lemma foldl_amounts_exact:
  assumes "whole_ledger records" and "magnitude records < 2 ^ 53"
  shows "foldl (\<lambda>sum record. plus64 sum (amount record)) (Num 0) records
           = Num (sum_list (map (\<lambda>r. val (amount r)) records))"
proof -
  have w: "list_all (\<lambda>r. whole (amount r)) records"
    using assms(1) by (simp add: whole_ledger_def list_all_iff)
  have b: "\<bar>0::int\<bar> + sum_list (map (\<lambda>r. \<bar>val (amount r)\<bar>) records) < 2 ^ 53"
    using amounts_le_magnitude [of records] assms(2) by simp
  show ?thesis
    using foldl_plus64_exact [OF w b] by simp
qed

lemma foldl_balances_exact:
  assumes "whole_ledger records" and "magnitude records < 2 ^ 53"
  shows "foldl (\<lambda>sum record. plus64 sum (minus64 (amount record) (paidAmount record))) (Num 0)
           records
           = Num (sum_list (map (\<lambda>r. val (amount r) - val (paidAmount r)) records))"
proof -
  let ?g = "\<lambda>r. Num (val (amount r) - val (paidAmount r))"
  have each: "minus64 (amount r) (paidAmount r) = ?g r" if "r \<in> set records" for r
  proof (rule balance_exact)
    show "whole (amount r)" "whole (paidAmount r)"
      using assms(1) that by (simp_all add: whole_ledger_def list_all_iff)
    show "\<bar>val (amount r)\<bar> + \<bar>val (paidAmount r)\<bar> < 2 ^ 53"
      using member_le_magnitude [OF that] assms(2) by simp
  qed
  have "foldl (\<lambda>sum record. plus64 sum (minus64 (amount record) (paidAmount record))) (Num 0)
          records
        = foldl (\<lambda>sum record. plus64 sum (?g record)) (Num 0) records"
    by (rule foldl_cong) (simp_all add: each)
  also have "\<dots> = Num (0 + sum_list (map (\<lambda>r. val (?g r)) records))"
  proof (rule foldl_plus64_exact)
    show "list_all (\<lambda>r. whole (?g r)) records"
      by (simp add: list_all_iff)
    show "\<bar>0::int\<bar> + sum_list (map (\<lambda>r. \<bar>val (?g r)\<bar>) records) < 2 ^ 53"
      using balances_le_magnitude [of records] assms(2) by simp
  qed
  finally show ?thesis
    by simp
qed

lemma id_rec_updatedRecord [simp]:
  "id_rec (updatedRecord clk k a n r) = id_rec r"
  by (simp add: updatedRecord_def Let_def)

lemma mapPayment_others:
  "filter (\<lambda>r. id_rec r \<noteq> recordId) (mapPayment clk k recordId a n records)
     = filter (\<lambda>r. id_rec r \<noteq> recordId) records"
  by (induction records arbitrary: k) simp_all

lemma mapPayment_ids:
  "map id_rec (mapPayment clk k recordId a n records) = map id_rec records"
  by (induction records arbitrary: k) simp_all

lemma mapPayment_absent:
  "recordId \<notin> id_rec ` set records \<Longrightarrow> mapPayment clk k recordId a n records = records"
  by (induction records arbitrary: k) auto

lemma find_absent:
  "recordId \<notin> id_rec ` set records \<Longrightarrow> find (\<lambda>r. id_rec r = recordId) records = None"
  by (induction records) auto

lemma mark_map_others:
  "filter (\<lambda>r. id_rec r \<noteq> recordId)
     (map (\<lambda>record. if id_rec record = recordId then record\<lparr>status := Paid\<rparr> else record) records)
   = filter (\<lambda>r. id_rec r \<noteq> recordId) records"
  by (induction records) simp_all

lemma mark_map_ids:
  "map id_rec
     (map (\<lambda>record. if id_rec record = recordId then record\<lparr>status := Paid\<rparr> else record) records)
   = map id_rec records"
  by (induction records) simp_all

lemma mark_map_absent:
  "recordId \<notin> id_rec ` set records \<Longrightarrow>
   map (\<lambda>record. if id_rec record = recordId then record\<lparr>status := Paid\<rparr> else record) records
   = records"
  by (induction records) auto

lemma length_mapPayment [simp]:
  "length (mapPayment clk k recordId a n records) = length records"
  by (induction records arbitrary: k) simp_all

lemma mapPayment_nth:
  "i < length records \<Longrightarrow> id_rec (records ! i) = recordId \<Longrightarrow>
   mapPayment clk k recordId a n records ! i
     = updatedRecord clk (k + 2 * length (filter (\<lambda>r. id_rec r = recordId) (take i records)))
         a n (records ! i)"
proof (induction records arbitrary: k i)
  case Nil
  then show ?case by simp
next
  case (Cons x xs)
  show ?case
  proof (cases i)
    case 0
    with Cons.prems show ?thesis by simp
  next
    case (Suc j)
    with Cons.prems have j: "j < length xs" "id_rec (xs ! j) = recordId" by simp_all
    show ?thesis
      using Cons.IH [OF j] Suc by simp
  qed
qed

lemma PartialPaymentForm_accepts:
  assumes "amount r = Num A" and "paidAmount r = Num P" and "safe (A - P)"
    and "0 < a" and "a \<le> A - P"
  shows "PartialPaymentForm_handleSubmit r onSubmit (Num a) paymentNotes st
           = onSubmit (Num a) (if paymentNotes = [] then None else Some paymentNotes) st"
  using assms
  by (simp add: PartialPaymentForm_handleSubmit_def Let_def minus64_exact falsy_def le64_def)

lemma PartialPaymentForm_rejects:
  assumes "le64 x (Num 0)
           \<or> (amount r = Num A \<and> paidAmount r = Num P \<and> safe (A - P) \<and> less64 (Num (A - P)) x)"
  shows "PartialPaymentForm_handleSubmit r onSubmit x paymentNotes st
           = (st, Some (if le64 x (Num 0) then InvalidAmount else AmountTooHigh))"
proof (cases "le64 x (Num 0)")
  case True
  then show ?thesis
    by (simp add: PartialPaymentForm_handleSubmit_def Let_def)
next
  case False
  with assms have r: "amount r = Num A" "paidAmount r = Num P" "safe (A - P)"
    and big: "less64 (Num (A - P)) x"
    by simp_all
  from big have "x \<noteq> NaN"
    by (cases x) simp_all
  moreover from False have "x \<noteq> Num 0"
    by (auto simp add: le64_def)
  ultimately have "\<not> falsy x"
    by (simp add: falsy_def)
  with False big r show ?thesis
    by (simp add: PartialPaymentForm_handleSubmit_def Let_def minus64_exact)
qed

lemma sum_list_insort_key:
  "sum_list (map f (insort_key g x xs)) = f x + sum_list (map f xs)" for f :: "'a \<Rightarrow> int"
  by (induction xs) simp_all

lemma sum_list_sort_key:
  "sum_list (map f (sort_key g xs)) = sum_list (map f xs)" for f :: "'a \<Rightarrow> int"
  by (induction xs) (simp_all add: sum_list_insort_key)

lemma sort_keeps_sum:
  "paid_is_history_sum r \<Longrightarrow> paid_is_history_sum (sortHistoryInPlace r)"
  by (simp add: paid_is_history_sum_def sortHistoryInPlace_def sum_list_sort_key list_all_iff)

lemma paidAmount_sort [simp]: "paidAmount (sortHistoryInPlace r) = paidAmount r"
  by (simp add: sortHistoryInPlace_def)

lemma sort_keeps_budget:
  "within_budget B r \<Longrightarrow> within_budget B (sortHistoryInPlace r)"
  unfolding within_budget_def by (simp add: sort_keeps_sum)

lemma render_keeps_budget:
  "within_budget B r \<Longrightarrow> within_budget B (PartialPaymentForm_render r)"
  by (simp add: PartialPaymentForm_render_def sort_keeps_budget)

lemma view_keeps_budget:
  "list_all (within_budget B) records \<Longrightarrow>
   list_all (within_budget B) (ContactDetailView_render lc selectedBorrower records)"
  by (induction records) (simp_all add: ContactDetailView_render_def sort_keeps_budget)

lemma list_all_update:
  "list_all P xs \<Longrightarrow> P y \<Longrightarrow> list_all P (xs[i := y])"
  using set_update_subset_insert [of xs i y] by (auto simp add: list_all_iff)

lemma budget_mono: "within_budget B r \<Longrightarrow> B \<le> C \<Longrightarrow> within_budget C r"
  by (simp add: within_budget_def)

lemma budget_mono_all:
  "list_all (within_budget B) records \<Longrightarrow> B \<le> C \<Longrightarrow> list_all (within_budget C) records"
  by (auto simp add: list_all_iff intro: budget_mono)

lemma updatedRecord_keeps_budget:
  assumes "within_budget B r" and "0 < a" and "B + a < 2 ^ 53"
  shows "within_budget (B + a) (updatedRecord clk k (Num a) n r)"
proof -
  let ?p = "val (paidAmount r)"
  from assms(1) have h: "paid_is_history_sum r" and p23: "0 \<le> ?p" "?p \<le> B"
    unfolding within_budget_def by simp_all
  from h have "whole (paidAmount r)"
    unfolding paid_is_history_sum_def by simp
  then have p1: "paidAmount r = Num ?p"
    by (rule whole_val)
  note p = p1 p23
  have "safe (?p + a)"
    using p(2,3) assms(2,3) by (simp add: safe_def)
  then have "plus64 (paidAmount r) (Num a) = Num (?p + a)"
    by (subst p(1)) (rule plus64_exact)
  moreover have "paid_is_history_sum (updatedRecord clk k (Num a) n r)"
    if "plus64 (paidAmount r) (Num a) = Num (?p + a)"
    using h that unfolding paid_is_history_sum_def
    by (simp add: updatedRecord_def Let_def)
  moreover have "paidAmount (updatedRecord clk k (Num a) n r) = plus64 (paidAmount r) (Num a)"
    by (simp add: updatedRecord_def Let_def)
  ultimately show ?thesis
    unfolding within_budget_def using p(2,3) assms(2) by simp
qed

lemma mapPayment_keeps_budget:
  assumes "0 < a" and "B + a < 2 ^ 53"
  shows "list_all (within_budget B) records \<Longrightarrow>
         list_all (within_budget (B + a)) (mapPayment clk k recordId (Num a) n records)"
proof (induction records arbitrary: k)
  case Nil
  then show ?case by simp
next
  case (Cons r records)
  then have r: "within_budget B r" and rest: "list_all (within_budget B) records"
    by simp_all
  have "within_budget (B + a) r"
    using assms(1) by (intro budget_mono [OF r]) simp
  then show ?case
    using Cons.IH [OF rest] updatedRecord_keeps_budget [OF r assms]
    by simp
qed

lemma Add_keeps_budget:
  assumes "list_all (within_budget B) records" and "0 \<le> B"
  shows "list_all (within_budget B) (fst (Add clk formData records))"
  using assms
  by (simp add: Add_def AddRecordForm_handleSubmit_def handleAddRecord_def Let_def
      within_budget_def paid_is_history_sum_def)

lemma ApplyPayment_keeps_budget:
  assumes "list_all (within_budget B) records" and "whole x" and "B + \<bar>val x\<bar> < 2 ^ 53"
  shows "list_all (within_budget (B + \<bar>val x\<bar>))
           (fst (ApplyPayment clk sel x paymentNotes records))"
proof -
  from assms(2) obtain a where x: "x = Num a"
    by (cases x) simp_all
  have same: "list_all (within_budget (B + \<bar>a\<bar>)) records"
    using assms(1) by (rule budget_mono_all) simp
  show ?thesis
  proof (cases "0 < a")
    case True
    then have "list_all (within_budget (B + a))
                 (mapPayment clk 0 (id_rec sel) (Num a) n records)" for n
      using assms(1,3) x by (intro mapPayment_keeps_budget) simp_all
    with True same show ?thesis
      by (simp add: x ApplyPayment_def PartialPaymentForm_handleSubmit_def
          handlePartialPayment_def Let_def)
  next
    case False
    with same show ?thesis
      by (simp add: x ApplyPayment_def PartialPaymentForm_handleSubmit_def Let_def
          le64_def falsy_def)
  qed
qed

lemma step_keeps_budget:
  assumes "list_all (within_budget B) records" and "0 \<le> B"
    and "whole_payment act" and "B + payment_size act < 2 ^ 53"
  shows "list_all (within_budget (B + payment_size act)) (step lc records act)"
proof (cases act)
  case (AddAction clk formData)
  with assms(1,2) show ?thesis
    by (simp add: Add_keeps_budget)
next
  case (ViewContactAction selectedBorrower)
  with assms(1) show ?thesis
    by (simp add: view_keeps_budget)
next
  case (ApplyPaymentAction clk i x paymentNotes)
  show ?thesis
  proof (cases "i < length records")
    case True
    let ?shown = "records[i := PartialPaymentForm_render (records ! i)]"
    have "within_budget B (records ! i)"
      using assms(1) True by (simp add: list_all_length)
    then have "list_all (within_budget B) ?shown"
      using assms(1) by (intro list_all_update render_keeps_budget)
    then have "list_all (within_budget (B + \<bar>val x\<bar>))
                 (fst (ApplyPayment clk (?shown ! i) x paymentNotes ?shown))"
      using assms(3,4) ApplyPaymentAction by (intro ApplyPayment_keeps_budget) simp_all
    with True ApplyPaymentAction show ?thesis
      by (simp add: Let_def)
  next
    case False
    have "list_all (within_budget (B + \<bar>val x\<bar>)) records"
      using assms(1) by (rule budget_mono_all) simp
    with False ApplyPaymentAction show ?thesis
      by simp
  qed
qed

lemma payment_size_nonneg: "0 \<le> payment_size act"
  by (cases act) simp_all

lemma foldl_step_keeps_budget:
  "list_all (within_budget B) records \<Longrightarrow> 0 \<le> B \<Longrightarrow> list_all whole_payment actions \<Longrightarrow>
   B + sum_list (map payment_size actions) < 2 ^ 53 \<Longrightarrow>
   list_all (within_budget (B + sum_list (map payment_size actions))) (foldl (step lc) records actions)"
proof (induction actions arbitrary: B records)
  case Nil
  then show ?case by simp
next
  case (Cons act actions)
  have rest_nonneg: "0 \<le> sum_list (map payment_size actions)"
    by (rule sum_list_nonneg) (auto simp add: payment_size_nonneg)
  have one: "list_all (within_budget (B + payment_size act)) (step lc records act)"
    using Cons.prems rest_nonneg by (intro step_keeps_budget) simp_all
  have "list_all (within_budget (B + payment_size act + sum_list (map payment_size actions)))
          (foldl (step lc) (step lc records act) actions)"
    using one Cons.prems payment_size_nonneg [of act]
    by (intro Cons.IH) (simp_all add: add.assoc)
  then show ?case
    by (simp add: add.assoc)
qed

lemma trim_decomposition:
  "\<exists>pre suf. s = pre @ trim s @ suf \<and> list_all isWhiteSpace pre \<and> list_all isWhiteSpace suf"
proof -
  let ?t = "dropWhile isWhiteSpace s"
  let ?pre = "takeWhile isWhiteSpace s"
  let ?suf = "rev (takeWhile isWhiteSpace (rev ?t))"
  have "rev (takeWhile isWhiteSpace (rev ?t) @ dropWhile isWhiteSpace (rev ?t))
          = rev (dropWhile isWhiteSpace (rev ?t)) @ ?suf"
    by (rule rev_append)
  then have "rev (rev ?t) = rev (dropWhile isWhiteSpace (rev ?t)) @ ?suf"
    by (simp only: takeWhile_dropWhile_id)
  then have t: "?t = trim s @ ?suf"
    by (simp only: rev_rev_ident trim_def)
  have "s = ?pre @ ?t"
    by simp
  with t have "s = ?pre @ trim s @ ?suf"
    by simp
  moreover have "list_all isWhiteSpace ?pre"
    by (simp add: list_all_iff) (meson set_takeWhileD)
  moreover have "list_all isWhiteSpace ?suf"
    by (simp add: list_all_iff) (meson set_takeWhileD)
  ultimately show ?thesis
    by blast
qed

lemma trim_ends:
  assumes "trim s \<noteq> []"
  shows "\<not> isWhiteSpace (hd (trim s)) \<and> \<not> isWhiteSpace (last (trim s))"
proof -
  let ?t = "dropWhile isWhiteSpace s"
  let ?u = "dropWhile isWhiteSpace (rev ?t)"
  from assms have u: "?u \<noteq> []"
    by (simp add: trim_def)
  have "?u = []" if "?t = []"
    using that by (simp only: rev.simps dropWhile.simps)
  with u have t: "?t \<noteq> []"
    by blast
  have "last (trim s) = hd ?u"
    using u by (simp add: trim_def last_rev)
  moreover have "\<not> isWhiteSpace (hd ?u)"
    using u by (rule hd_dropWhile)
  moreover have "hd (trim s) = last ?u"
    using u by (simp add: trim_def hd_rev)
  moreover have "last ?u = last (rev ?t)"
    using u by (metis append_is_Nil_conv last_appendR takeWhile_dropWhile_id)
  moreover have "last (rev ?t) = hd ?t"
    using t by (simp add: last_rev)
  moreover have "\<not> isWhiteSpace (hd ?t)"
    using t by (rule hd_dropWhile)
  ultimately show ?thesis
    by simp
qed

lemma digits_chars: "d \<in> set (digits n) \<Longrightarrow> 48 \<le> d \<and> d \<le> 57"
proof (induction n rule: digits.induct)
  case (1 n)
  show ?case
  proof (cases "n < 10")
    case True
    with "1.prems" show ?thesis
      by (subst (asm) digits.simps) simp
  next
    case False
    with "1.prems" have "d \<in> set (digits (n div 10)) \<or> d = 48 + n mod 10"
      by (subst (asm) digits.simps) auto
    then show ?thesis
      using "1.IH" [OF False] by auto
  qed
qed

lemma undigits_digits: "undigits (digits n) = n"
proof (induction n rule: digits.induct)
  case (1 n)
  show ?case
  proof (cases "n < 10")
    case True
    then show ?thesis
      by (subst digits.simps) (simp add: undigits_def)
  next
    case False
    have "undigits (digits n) = 10 * undigits (digits (n div 10)) + n mod 10"
      using False by (subst digits.simps) (simp add: undigits_def)
    then show ?thesis
      using "1.IH" [OF False] by simp
  qed
qed

lemma digits_inject: "digits m = digits n \<Longrightarrow> m = n"
  by (metis undigits_digits)

lemma toString_inject:
  assumes "toString s = toString t"
  shows "s = t"
proof -
  have no_minus: "45 # ds \<noteq> digits n" for ds n
  proof
    assume "45 # ds = digits n"
    then have "45 \<in> set (digits n)"
      by (metis list.set_intros(1))
    then have "(48::nat) \<le> 45"
      using digits_chars by blast
    then show False
      by simp
  qed
  consider "s < 0" "t < 0" | "s < 0" "\<not> t < 0" | "\<not> s < 0" "t < 0" | "\<not> s < 0" "\<not> t < 0"
    by blast
  then show ?thesis
  proof cases
    case 1
    with assms have "digits (nat (- s)) = digits (nat (- t))"
      by (simp add: toString_def)
    then have "nat (- s) = nat (- t)"
      by (rule digits_inject)
    with 1 show ?thesis by simp
  next
    case 2
    with assms no_minus show ?thesis
      by (simp add: toString_def)
  next
    case 3
    with assms no_minus [of "digits (nat (- t))" "nat s"] show ?thesis
      by (simp add: toString_def)
  next
    case 4
    with assms have "digits (nat s) = digits (nat t)"
      by (simp add: toString_def)
    then have "nat s = nat t"
      by (rule digits_inject)
    with 4 show ?thesis by simp
  qed
qed

lemma strip_leading_dropWhile: "strip_leading s = dropWhile isWhiteSpace s"
  by (induction s) simp_all

lemma strip_trailing_rev: "strip_trailing s = rev (dropWhile isWhiteSpace (rev s))"
proof (induction s)
  case Nil
  show ?case by simp
next
  case (Cons c cs)
  have empty: "strip_trailing cs = [] \<longleftrightarrow> (\<forall>x\<in>set cs. isWhiteSpace x)"
    by (simp add: Cons.IH dropWhile_eq_Nil_conv)
  show ?case
    using Cons.IH empty by (simp add: dropWhile_append)
qed

lemma trim_is_spec_trim: "trim s = spec_trim s"
  by (simp add: trim_def spec_trim_def strip_leading_dropWhile strip_trailing_rev)

lemma squeeze_collapseWs:
  "squeeze True cs = collapseWs (dropWhile isWhiteSpace cs) \<and> squeeze False cs = collapseWs cs"
  by (induction cs) simp_all

lemma normalizeName_is_spec_identity: "normalizeName lc nm = spec_identity lc nm"
  by (simp add: normalizeName_def spec_identity_def trim_is_spec_trim squeeze_collapseWs)

lemma set_first_seen [simp]: "set (first_seen xs) = set xs"
  by (induction xs) auto

lemma distinct_first_seen [simp]: "distinct (first_seen xs)"
  by (induction xs) (simp_all add: distinct_removeAll)

lemma first_seen_snoc:
  "first_seen (xs @ [y]) = (if y \<in> set xs then first_seen xs else first_seen xs @ [y])"
  by (induction xs) auto

lemma map_get_keyed:
  "map_get (map (\<lambda>k. (k, f k)) ks) k = (if k \<in> set ks then Some (f k) else None)"
  by (induction ks) auto

lemma map_set_new_key:
  "k \<notin> set ks \<Longrightarrow> map_set (map (\<lambda>k. (k, f k)) ks) k v = map (\<lambda>k. (k, f k)) ks @ [(k, v)]"
  by (induction ks) auto

lemma map_set_old_key:
  "k \<in> set ks \<Longrightarrow> distinct ks \<Longrightarrow>
   map_set (map (\<lambda>k'. (k', f k')) ks) k v = map (\<lambda>k'. (k', if k' = k then v else f k')) ks"
  by (induction ks) auto

lemma insort_key_same_order:
  assumes "\<forall>y\<in>set ys. (f x \<le> f y) = (g x \<le> g y)"
  shows "insort_key f x ys = insort_key g x ys"
  using assms by (induction ys) simp_all

lemma sort_key_same_order:
  assumes "\<forall>x\<in>set xs. \<forall>y\<in>set xs. (f x \<le> f y) = (g x \<le> g y)"
  shows "sort_key f xs = sort_key g xs"
  using assms
proof (induction xs)
  case Nil
  show ?case by simp
next
  case (Cons x xs)
  then have "sort_key f xs = sort_key g xs"
    by simp
  moreover have "insort_key f x (sort_key g xs) = insort_key g x (sort_key g xs)"
    using Cons.prems by (intro insort_key_same_order) simp
  ultimately show ?case
    by simp
qed

lemma sort_by_owed_whole:
  assumes "list_all (\<lambda>s. whole (totalOwed s)) summaries"
  shows "sort_by_owed summaries = Some (sort_key (\<lambda>s. - val (totalOwed s)) summaries)"
proof -
  have none: "\<not> list_ex (\<lambda>x. x = NaN) (map totalOwed summaries)"
    using assms by (auto simp add: list_all_iff list_ex_iff)
  have "(owed_rank (totalOwed s) \<le> owed_rank (totalOwed t))
          = (- val (totalOwed s) \<le> - val (totalOwed t))"
    if "s \<in> set summaries" "t \<in> set summaries" for s t
  proof -
    from that assms have "whole (totalOwed s)" "whole (totalOwed t)"
      by (simp_all add: list_all_iff)
    then show ?thesis
      by (cases "totalOwed s"; cases "totalOwed t") simp_all
  qed
  then have "sort_key (\<lambda>s. owed_rank (totalOwed s)) summaries
               = sort_key (\<lambda>s. - val (totalOwed s)) summaries"
    by (intro sort_key_same_order) blast
  with none show ?thesis
    by (simp add: sort_by_owed_def Let_def)
qed

lemma whole_ledger_snoc:
  "whole_ledger (records @ [r])
     \<longleftrightarrow> whole_ledger records \<and> whole (amount r) \<and> whole (paidAmount r)"
  by (auto simp add: whole_ledger_def)

lemma magnitude_snoc:
  "magnitude (records @ [r]) = magnitude records + (\<bar>val (amount r)\<bar> + \<bar>val (paidAmount r)\<bar>)"
  by (simp add: magnitude_def)

lemma magnitude_nonneg: "0 \<le> magnitude records"
  unfolding magnitude_def by (rule sum_list_nonneg) auto

lemma abs_amounts_le_magnitude:
  "\<bar>sum_list (map (\<lambda>r. val (amount r)) records)\<bar> \<le> magnitude records"
proof -
  have "\<bar>sum_list (map (\<lambda>r. val (amount r)) records)\<bar>
          \<le> sum_list (map abs (map (\<lambda>r. val (amount r)) records))"
    by (rule sum_list_abs)
  also have "\<dots> = sum_list (map (\<lambda>r. \<bar>val (amount r)\<bar>) records)"
    by (simp add: comp_def)
  also have "\<dots> \<le> magnitude records"
    by (rule amounts_le_magnitude)
  finally show ?thesis .
qed

lemma abs_balances_le_magnitude:
  "\<bar>sum_list (map (\<lambda>r. val (amount r) - val (paidAmount r)) (filter P records))\<bar>
     \<le> magnitude records"
proof -
  have "\<bar>sum_list (map (\<lambda>r. val (amount r) - val (paidAmount r)) (filter P records))\<bar>
          \<le> sum_list (map abs (map (\<lambda>r. val (amount r) - val (paidAmount r)) (filter P records)))"
    by (rule sum_list_abs)
  also have "\<dots> = sum_list (map (\<lambda>r. \<bar>val (amount r) - val (paidAmount r)\<bar>) (filter P records))"
    by (simp add: comp_def)
  also have "\<dots> \<le> magnitude (filter P records)"
    by (rule balances_le_magnitude)
  also have "\<dots> \<le> magnitude records"
    by (rule magnitude_filter)
  finally show ?thesis .
qed

lemma class_summary_single:
  assumes "whole (amount r)" and "whole (paidAmount r)"
    and "\<bar>val (amount r)\<bar> + \<bar>val (paidAmount r)\<bar> < 2 ^ 53"
  shows "class_summary [r] =
     (let existing = \<lparr>name = spec_trim (borrowerName r), totalOwed = Num 0, totalBorrowed = Num 0,
                       recordCount = 0, lastBorrowed = lentDate r\<rparr>;
          e1 = existing\<lparr>totalBorrowed := plus64 (totalBorrowed existing) (amount r),
                        recordCount := recordCount existing + 1\<rparr>;
          e2 = (if status r = Pending
                then e1\<lparr>totalOwed := plus64 (totalOwed e1) (minus64 (amount r) (paidAmount r))\<rparr>
                else e1)
      in if lentDate r > lastBorrowed e2 then e2\<lparr>lastBorrowed := lentDate r\<rparr> else e2)"
proof -
  have a: "plus64 (Num 0) (amount r) = Num (val (amount r))"
    using assms(3) by (subst whole_val [OF assms(1)]) (simp add: round64_exact safe_def)
  have b: "plus64 (Num 0) (minus64 (amount r) (paidAmount r))
             = Num (val (amount r) - val (paidAmount r))"
    using assms(3) by (subst balance_exact [OF assms]) (simp add: round64_exact safe_def)
  show ?thesis
    by (simp add: class_summary_def Let_def a b)
qed

lemma max_as_if: "max a M = (if a > M then a else M)" for a M :: int
  by (simp add: max_def)

lemma lastBorrowed_class_summary:
  "lastBorrowed (class_summary members) = Max (set (map lentDate members))"
  by (simp add: class_summary_def)

lemma lastBorrowed_snoc:
  assumes "members \<noteq> []"
  shows "lastBorrowed (class_summary (members @ [r]))
           = (if lentDate r > lastBorrowed (class_summary members) then lentDate r
              else lastBorrowed (class_summary members))"
proof -
  have "set (map lentDate (members @ [r])) = insert (lentDate r) (set (map lentDate members))"
    by simp
  moreover have "Max (insert (lentDate r) (set (map lentDate members)))
          = max (lentDate r) (Max (set (map lentDate members)))"
    using assms by (intro Max_insert) simp_all
  ultimately have "Max (set (map lentDate (members @ [r])))
          = max (lentDate r) (Max (set (map lentDate members)))"
    by (simp only:)
  then show ?thesis
    by (simp only: lastBorrowed_class_summary max_as_if)
qed

lemma class_summary_snoc:
  assumes "members \<noteq> []" and "whole_ledger (members @ [r])"
    and "magnitude (members @ [r]) < 2 ^ 53"
  shows "class_summary (members @ [r]) =
     (let existing = class_summary members;
          e1 = existing\<lparr>totalBorrowed := plus64 (totalBorrowed existing) (amount r),
                        recordCount := recordCount existing + 1\<rparr>;
          e2 = (if status r = Pending
                then e1\<lparr>totalOwed := plus64 (totalOwed e1) (minus64 (amount r) (paidAmount r))\<rparr>
                else e1)
      in if lentDate r > lastBorrowed e2 then e2\<lparr>lastBorrowed := lentDate r\<rparr> else e2)"
proof -
  let ?S = "sum_list (map (\<lambda>r. val (amount r)) members)"
  let ?O = "sum_list (map (\<lambda>r. val (amount r) - val (paidAmount r))
              (filter (\<lambda>r. status r = Pending) members))"
  from assms(2) have w: "whole (amount r)" "whole (paidAmount r)"
    by (simp_all add: whole_ledger_snoc)
  have small: "\<bar>val (amount r)\<bar> + \<bar>val (paidAmount r)\<bar> < 2 ^ 53"
    using assms(3) magnitude_nonneg [of members] by (simp add: magnitude_snoc)
  have bal: "minus64 (amount r) (paidAmount r) = Num (val (amount r) - val (paidAmount r))"
    using w small by (rule balance_exact)
  have "\<bar>?S + val (amount r)\<bar> \<le> magnitude (members @ [r])"
    using abs_amounts_le_magnitude [of "members @ [r]"] by simp
  then have "safe (?S + val (amount r))"
    using assms(3) by (rule safe_mono)
  then have borrowed: "plus64 (Num ?S) (amount r) = Num (?S + val (amount r))"
    by (subst whole_val [OF w(1)]) (rule plus64_exact)
  have "\<bar>?O + (val (amount r) - val (paidAmount r))\<bar> \<le> magnitude (members @ [r])"
    if "status r = Pending"
    using abs_balances_le_magnitude [of "\<lambda>r. status r = Pending" "members @ [r]"] that by simp
  then have "safe (?O + (val (amount r) - val (paidAmount r)))" if "status r = Pending"
    using assms(3) that by (intro safe_mono [of _ "magnitude (members @ [r])"]) simp_all
  then have owed: "plus64 (Num ?O) (minus64 (amount r) (paidAmount r))
                     = Num (?O + (val (amount r) - val (paidAmount r)))" if "status r = Pending"
    using that by (simp only: bal plus64_exact)
  have fields: "name (class_summary (members @ [r])) = name (class_summary members)"
    "totalOwed (class_summary (members @ [r]))
       = (if status r = Pending
          then plus64 (totalOwed (class_summary members)) (minus64 (amount r) (paidAmount r))
          else totalOwed (class_summary members))"
    "totalBorrowed (class_summary (members @ [r]))
       = plus64 (totalBorrowed (class_summary members)) (amount r)"
    "recordCount (class_summary (members @ [r])) = recordCount (class_summary members) + 1"
    using assms(1) borrowed owed by (simp_all add: class_summary_def)
  show ?thesis
    by (rule BorrowerSummary.equality)
      (simp_all add: Let_def fields lastBorrowed_snoc [OF assms(1)])
qed

lemma summaryStep_fresh:
  assumes "map_get m (spec_identity lc (borrowerName r)) = None"
    and "whole (amount r)" and "whole (paidAmount r)"
    and "\<bar>val (amount r)\<bar> + \<bar>val (paidAmount r)\<bar> < 2 ^ 53"
  shows "summaryStep lc m r = map_set m (spec_identity lc (borrowerName r)) (class_summary [r])"
  using assms(1)
  by (simp add: summaryStep_def normalizeName_is_spec_identity trim_is_spec_trim
      class_summary_single [OF assms(2-4)] Let_def)

lemma summaryStep_existing:
  assumes "map_get m (spec_identity lc (borrowerName r)) = Some (class_summary members)"
    and "members \<noteq> []" and "whole_ledger (members @ [r])"
    and "magnitude (members @ [r]) < 2 ^ 53"
  shows "summaryStep lc m r
           = map_set m (spec_identity lc (borrowerName r)) (class_summary (members @ [r]))"
  using assms(1)
  by (simp add: summaryStep_def normalizeName_is_spec_identity
      class_summary_snoc [OF assms(2-4)] Let_def)

lemma class_members_snoc:
  "class_members lc (records @ [r]) k
     = (if spec_identity lc (borrowerName r) = k then class_members lc records k @ [r]
        else class_members lc records k)"
  by (simp add: class_members_def)

lemma class_members_empty_iff:
  "class_members lc records k = [] \<longleftrightarrow> k \<notin> set (identity_classes lc records)"
  by (auto simp add: class_members_def identity_classes_def filter_empty_conv)

lemma identity_classes_snoc:
  "identity_classes lc (records @ [r])
     = (if spec_identity lc (borrowerName r) \<in> set (identity_classes lc records)
        then identity_classes lc records
        else identity_classes lc records @ [spec_identity lc (borrowerName r)])"
  by (simp add: identity_classes_def first_seen_snoc)

lemma reduce_is_grouping:
  "whole_ledger records \<Longrightarrow> magnitude records < 2 ^ 53 \<Longrightarrow>
   foldl (summaryStep lc) [] records
     = map (\<lambda>k. (k, class_summary (class_members lc records k))) (identity_classes lc records)"
proof (induction records rule: rev_induct)
  case Nil
  show ?case by (simp add: identity_classes_def)
next
  case (snoc r records)
  let ?K = "spec_identity lc (borrowerName r)"
  let ?ks = "identity_classes lc records"
  let ?f = "\<lambda>k. class_summary (class_members lc records k)"
  let ?m = "map (\<lambda>k. (k, ?f k)) ?ks"
  from snoc.prems have w: "whole_ledger records" "whole (amount r)" "whole (paidAmount r)"
    by (simp_all add: whole_ledger_snoc)
  have small: "magnitude records < 2 ^ 53" "\<bar>val (amount r)\<bar> + \<bar>val (paidAmount r)\<bar> < 2 ^ 53"
    using snoc.prems(2) magnitude_nonneg [of records] by (simp_all add: magnitude_snoc)
  have fold: "foldl (summaryStep lc) [] (records @ [r]) = summaryStep lc ?m r"
    using snoc.IH [OF w(1) small(1)] by simp
  show ?case
  proof (cases "?K \<in> set ?ks")
    case True
    then have ne: "class_members lc records ?K \<noteq> []"
      by (simp add: class_members_empty_iff)
    have get: "map_get ?m ?K = Some (class_summary (class_members lc records ?K))"
      using True by (simp add: map_get_keyed)
    have wm: "whole_ledger (class_members lc records ?K @ [r])"
      using snoc.prems(1) by (auto simp add: class_members_def whole_ledger_def list_all_iff)
    have "magnitude (class_members lc records ?K) \<le> magnitude records"
      unfolding class_members_def by (rule magnitude_filter)
    then have mm: "magnitude (class_members lc records ?K @ [r]) < 2 ^ 53"
      using snoc.prems(2) by (simp add: magnitude_snoc)
    have "summaryStep lc ?m r
            = map_set ?m ?K (class_summary (class_members lc records ?K @ [r]))"
      using get ne wm mm by (rule summaryStep_existing)
    also have "\<dots> = map (\<lambda>k'. (k', if k' = ?K
                                    then class_summary (class_members lc records ?K @ [r])
                                    else ?f k')) ?ks"
      using True by (simp add: map_set_old_key identity_classes_def)
    also have "\<dots> = map (\<lambda>k. (k, class_summary (class_members lc (records @ [r]) k))) ?ks"
      by (rule map_cong) (simp_all add: class_members_snoc)
    finally show ?thesis
      using True by (simp only: fold identity_classes_snoc if_True)
  next
    case False
    then have emp: "class_members lc records ?K = []"
      by (simp add: class_members_empty_iff)
    have get: "map_get ?m ?K = None"
      using False by (simp add: map_get_keyed)
    have "summaryStep lc ?m r = map_set ?m ?K (class_summary [r])"
      using get w(2,3) small(2) by (rule summaryStep_fresh)
    also have "\<dots> = ?m @ [(?K, class_summary [r])]"
      using False by (simp add: map_set_new_key)
    finally have stepped: "summaryStep lc ?m r = ?m @ [(?K, class_summary [r])]" .
    have classes: "identity_classes lc (records @ [r]) = ?ks @ [?K]"
      using False by (simp add: identity_classes_snoc)
    have old: "map (\<lambda>k. (k, class_summary (class_members lc (records @ [r]) k))) ?ks = ?m"
      using False by (intro map_cong) (auto simp add: class_members_snoc)
    have new: "class_members lc (records @ [r]) ?K = [r]"
      using emp by (simp add: class_members_snoc)
    show ?thesis
      unfolding fold stepped classes by (simp add: old new)
  qed
qed

section \<open>Global totals\<close>

text \<open>
  C2, as the claim states it, fails: the totals are binary64 sums, and the sum of the
  amounts \<open>2^53\<close> and 1 is rounded back to \<open>2^53\<close>.
\<close>

theorem globalTotals_rounding_counterexample:
  "totalLent [whale, penny] = Num 9007199254740992
   \<and> val (amount whale) + val (amount penny) = 9007199254740993"
  by (simp add: totalLent_def whale_def penny_def eval_numbers)

text \<open>
  C2, amended. For every record collection whose amounts and paid amounts are whole
  numbers with magnitudes adding up to less than \<open>2^53\<close>, \<open>totalLent\<close> is the sum of
  \<open>amount\<close> over all records, \<open>totalPending\<close> is the sum of \<open>amount - paidAmount\<close> over the
  pending records, and the returned total (\<open>totalPaid\<close> in the code) is the sum of the full
  \<open>amount\<close>, not of \<open>paidAmount\<close>, over the paid records.
\<close>

theorem globalTotals_sums:
  assumes "whole_ledger records" and "magnitude records < 2 ^ 53"
  shows "totalLent records = Num (sum_list (map (\<lambda>r. val (amount r)) records))
   \<and> totalPending records
       = Num (sum_list (map (\<lambda>r. val (amount r) - val (paidAmount r))
                (filter (\<lambda>r. status r = Pending) records)))
   \<and> totalPaid records
       = Num (sum_list (map (\<lambda>r. val (amount r)) (filter (\<lambda>r. status r = Paid) records)))"
proof -
  have sub: "whole_ledger (filter P records)" "magnitude (filter P records) < 2 ^ 53" for P
    using assms whole_ledger_filter [of records P] magnitude_filter [of P records] by simp_all
  show ?thesis
    unfolding totalLent_def totalPending_def totalPaid_def
    using foldl_amounts_exact [OF assms] foldl_balances_exact [OF sub] foldl_amounts_exact [OF sub]
    by simp
qed

theorem globalTotals_sums_witness:
  "whole_ledger [lunch, taxi, coffee\<lparr>status := Paid\<rparr>]
   \<and> magnitude [lunch, taxi, coffee\<lparr>status := Paid\<rparr>] = 850
   \<and> totalLent [lunch, taxi, coffee\<lparr>status := Paid\<rparr>] = Num 650
   \<and> totalPending [lunch, taxi, coffee\<lparr>status := Paid\<rparr>] = Num 400
   \<and> totalPaid [lunch, taxi, coffee\<lparr>status := Paid\<rparr>] = Num 50"
proof -
  have h: "whole_ledger [lunch, taxi, coffee\<lparr>status := Paid\<rparr>]"
    "magnitude [lunch, taxi, coffee\<lparr>status := Paid\<rparr>] < 2 ^ 53"
    by (simp_all add: whole_ledger_def magnitude_def lunch_def taxi_def coffee_def)
  have m: "magnitude [lunch, taxi, coffee\<lparr>status := Paid\<rparr>] = 850"
    by (simp add: magnitude_def lunch_def taxi_def coffee_def)
  show ?thesis
    using h(1) m globalTotals_sums [OF h]
    by (simp add: lunch_def taxi_def coffee_def)
qed

section \<open>Frame of the targeted mutations\<close>

text \<open>
  C10. A payment, a mark-as-paid and a delete aimed at one id leave the records with any
  other id as they were and in the same relative order: the records with another id,
  read off the new list, are the records with another id of the old list. The first two
  also keep every id at its position.
\<close>

theorem targeted_mutation_frame:
  "filter (\<lambda>r. id_rec r \<noteq> recordId) (fst (handlePartialPayment clk recordId a n records))
     = filter (\<lambda>r. id_rec r \<noteq> recordId) records
   \<and> map id_rec (fst (handlePartialPayment clk recordId a n records)) = map id_rec records
   \<and> filter (\<lambda>r. id_rec r \<noteq> recordId) (fst (markAsPaid recordId records))
     = filter (\<lambda>r. id_rec r \<noteq> recordId) records
   \<and> map id_rec (fst (markAsPaid recordId records)) = map id_rec records
   \<and> fst (deleteRecord recordId records) = filter (\<lambda>r. id_rec r \<noteq> recordId) records"
  by (simp add: handlePartialPayment_def markAsPaid_def deleteRecord_def
      mapPayment_others mapPayment_ids mark_map_others mark_map_ids)

section \<open>Applying a payment\<close>

text \<open>
  C1, as the claim states it, fails: on a record with amount \<open>2^53 + 2\<close> and paid amount
  \<open>2^53\<close> the payment 1 is within the balance and is accepted, an entry is appended, and
  the paid amount stays \<open>2^53\<close>, for \<open>2^53 + 1\<close> is rounded.
\<close>

theorem ApplyPayment_rounding_counterexample:
  "val (amount grand) - val (paidAmount grand) = 2
   \<and> \<not> failed (snd (ApplyPayment tick grand (Num 1) [] [grand]))
   \<and> paidAmount (fst (ApplyPayment tick grand (Num 1) [] [grand]) ! 0) = paidAmount grand
   \<and> map amount_pay (paymentHistory (fst (ApplyPayment tick grand (Num 1) [] [grand]) ! 0))
       = [Num 9007199254740992, Num 1]
   \<and> status (fst (ApplyPayment tick grand (Num 1) [] [grand]) ! 0) = Pending"
  by (simp add: grand_def ApplyPayment_def PartialPaymentForm_handleSubmit_def
      handlePartialPayment_def updatedRecord_def eval_numbers)

text \<open>
  C1, amended. Let \<open>r\<close> be the record at position \<open>i\<close> of the store as it stands when the
  payment form is submitted, with whole amount \<open>A\<close> and paid amount \<open>P\<close>, and let
  \<open>0 < a \<le> A - P\<close>, with \<open>A - P\<close> and \<open>P + a\<close> below \<open>2^53\<close> in magnitude. Then the payment is
  accepted, the list keeps its length, and the record at position \<open>i\<close> is \<open>r\<close> with exactly
  one entry \<open>e\<close> appended to its history, \<open>paidAmount\<close> raised by \<open>a\<close> and \<open>status\<close> set to
  \<open>Paid\<close> when the new \<open>paidAmount\<close> reaches \<open>amount\<close> and to \<open>Pending\<close> otherwise; \<open>e\<close>
  carries the amount, the notes and a reading of the clock taken during the call. A
  payment of exactly the remaining balance leaves a balance of 0 and the status \<open>Paid\<close>.
\<close>

theorem ApplyPayment_records_payment:
  assumes "i < length records" and "records ! i = r"
    and "amount r = Num A" and "paidAmount r = Num P"
    and "safe (A - P)" and "safe (P + a)"
    and "0 < a" and "a \<le> A - P"
  shows "\<exists>e r'. fst (ApplyPayment clk r (Num a) paymentNotes records) ! i = r'
           \<and> length (fst (ApplyPayment clk r (Num a) paymentNotes records)) = length records
           \<and> \<not> failed (snd (ApplyPayment clk r (Num a) paymentNotes records))
           \<and> r' = r\<lparr>paidAmount := Num (P + a),
                     paymentHistory := paymentHistory r @ [e],
                     status := (if P + a \<ge> A then Paid else Pending)\<rparr>
           \<and> amount_pay e = Num a
           \<and> (\<exists>k. date_pay e = clk k)
           \<and> notes_pay e = (if paymentNotes = [] then None else Some paymentNotes)
           \<and> (a = A - P \<longrightarrow>
                minus64 (amount r') (paidAmount r') = Num 0 \<and> status r' = Paid)"
proof -
  let ?n = "if paymentNotes = [] then None else Some paymentNotes"
  let ?k = "2 * length (filter (\<lambda>x. id_rec x = id_rec r) (take i records))"
  let ?e = "\<lparr>id_pay = toString (clk ?k), amount_pay = Num a, date_pay = clk (?k + 1),
             notes_pay = ?n\<rparr>"
  have run: "ApplyPayment clk r (Num a) paymentNotes records
               = handlePartialPayment clk (id_rec r) (Num a) ?n records"
    using assms(3,4,5,7,8) by (simp add: ApplyPayment_def PartialPaymentForm_accepts)
  have nth: "fst (handlePartialPayment clk (id_rec r) (Num a) ?n records) ! i
               = updatedRecord clk ?k (Num a) ?n r"
    using mapPayment_nth [of i records "id_rec r" clk 0 "Num a" ?n] assms(1,2)
    by (simp add: handlePartialPayment_def)
  have upd: "updatedRecord clk ?k (Num a) ?n r
               = r\<lparr>paidAmount := Num (P + a),
                    paymentHistory := paymentHistory r @ [?e],
                    status := (if P + a \<ge> A then Paid else Pending)\<rparr>"
    using assms(3,4,6) by (auto simp add: updatedRecord_def Let_def round64_exact le64_def)
  have zero: "minus64 (Num A) (Num (P + a)) = Num 0" if "a = A - P"
    using that by (simp add: minus64_def round64_exact safe_def)
  have toast: "\<not> failed (snd (handlePartialPayment clk (id_rec r) (Num a) ?n records))"
    by (simp add: handlePartialPayment_def Let_def split: option.split)
  have len: "length (fst (handlePartialPayment clk (id_rec r) (Num a) ?n records)) = length records"
    by (simp add: handlePartialPayment_def)
  show ?thesis
    apply (rule exI [of _ ?e])
    apply (rule exI [of _ "updatedRecord clk ?k (Num a) ?n r"])
    apply (simp only: run nth len)
    using toast upd zero assms(3) apply auto
    done
qed

theorem ApplyPayment_records_payment_witness:
  "(1::nat) < length [taxi, lunch] \<and> [taxi, lunch] ! 1 = lunch
   \<and> amount lunch = Num 500 \<and> paidAmount lunch = Num 200
   \<and> safe (500 - 200) \<and> safe (200 + 300)
   \<and> (\<exists>e. fst (ApplyPayment tick lunch (Num 300) (js ''cash'') [taxi, lunch]) ! 1
               = lunch\<lparr>paidAmount := Num 500,
                       paymentHistory := paymentHistory lunch @ [e],
                       status := Paid\<rparr>
            \<and> amount_pay e = Num 300 \<and> notes_pay e = Some (js ''cash''))"
proof -
  have h: "(1::nat) < length [taxi, lunch]" "[taxi, lunch] ! 1 = lunch"
    "amount lunch = Num 500" "paidAmount lunch = Num 200"
    "safe (500 - 200)" "safe (200 + 300)"
    "(0::int) < 300" "(300::int) \<le> 500 - 200"
    by (simp_all add: lunch_def safe_def)
  have v: "js ''cash'' \<noteq> []"
    by (simp add: js_def)
  have "\<exists>e. fst (ApplyPayment tick lunch (Num 300) (js ''cash'') [taxi, lunch]) ! 1
               = lunch\<lparr>paidAmount := Num 500,
                       paymentHistory := paymentHistory lunch @ [e],
                       status := Paid\<rparr>
            \<and> amount_pay e = Num 300 \<and> notes_pay e = Some (js ''cash'')"
    using ApplyPayment_records_payment [OF h, of tick "js ''cash''"]
    apply (simp add: v)
    apply (elim exE conjE)
    apply (rule exI)
    apply (intro conjI; assumption)
    done
  with h show ?thesis
    by simp
qed

text \<open>
  C4, as the claim states it, fails twice. The balance the form compares with is
  rounded: with amount \<open>2^53 + 4\<close> and paid amount 1 the payment \<open>2^53 + 4\<close> exceeds the
  balance \<open>2^53 + 3\<close> and is accepted. And the form compares with the balance of its own
  record only: of two records with one id, a payment of 100 made in the dialog of the one
  that is owed 100 is also booked on the other, which is owed 50.
\<close>

theorem ApplyPayment_validation_counterexample:
  "val (amount odd_loan) - val (paidAmount odd_loan) < 9007199254740996
   \<and> \<not> failed (snd (ApplyPayment tick odd_loan (Num 9007199254740996) [] [odd_loan]))
   \<and> paidAmount (fst (ApplyPayment tick odd_loan (Num 9007199254740996) [] [odd_loan]) ! 0)
       = Num 9007199254740996
   \<and> twin_x \<in> set [twin_y, twin_x] \<and> id_rec twin_x = id_rec twin_y
   \<and> val (amount twin_x) - val (paidAmount twin_x) < 100
   \<and> \<not> failed (snd (ApplyPayment tick twin_y (Num 100) [] [twin_y, twin_x]))
   \<and> paidAmount (fst (ApplyPayment tick twin_y (Num 100) [] [twin_y, twin_x]) ! 1) = Num 100"
  by (simp add: odd_loan_def twin_x_def twin_y_def ApplyPayment_def
      PartialPaymentForm_handleSubmit_def handlePartialPayment_def updatedRecord_def eval_numbers)

text \<open>
  C4, amended. In the dialog of a record, a payment that is \<open><= 0\<close>, or that is greater than
  the remaining balance \<open>A - P\<close> of that record when its amount \<open>A\<close> and paid amount \<open>P\<close> are
  whole and \<open>A - P\<close> is below \<open>2^53\<close> in magnitude, is rejected with a destructive toast
  (Invalid Amount, Amount Too High) and the record list stays as it was at submission: the
  form never calls \<open>handlePartialPayment\<close>.
\<close>

theorem ApplyPayment_rejects_bad_amount:
  assumes "le64 x (Num 0)
           \<or> (amount sel = Num A \<and> paidAmount sel = Num P \<and> safe (A - P)
               \<and> less64 (Num (A - P)) x)"
  shows "fst (ApplyPayment clk sel x paymentNotes records) = records
         \<and> failed (snd (ApplyPayment clk sel x paymentNotes records))
         \<and> snd (ApplyPayment clk sel x paymentNotes records)
             = Some (if le64 x (Num 0) then InvalidAmount else AmountTooHigh)"
  using PartialPaymentForm_rejects
      [OF assms, of "handlePartialPayment clk (id_rec sel)" paymentNotes records]
  by (simp add: ApplyPayment_def)

theorem ApplyPayment_rejects_bad_amount_witness:
  "amount lunch = Num 500 \<and> paidAmount lunch = Num 200 \<and> safe (500 - 200)
   \<and> less64 (Num (500 - 200)) (Num 301) \<and> le64 (Num 0) (Num 0)
   \<and> ApplyPayment tick lunch (Num 301) [] [lunch, taxi] = ([lunch, taxi], Some AmountTooHigh)
   \<and> ApplyPayment tick lunch (Num 0) [] [lunch, taxi] = ([lunch, taxi], Some InvalidAmount)"
proof -
  have h: "le64 (Num 301) (Num 0)
           \<or> (amount lunch = Num 500 \<and> paidAmount lunch = Num 200 \<and> safe (500 - 200)
               \<and> less64 (Num (500 - 200)) (Num 301))"
    by (simp add: lunch_def safe_def)
  have h0: "le64 (Num 0) (Num 0)
           \<or> (amount lunch = Num 500 \<and> paidAmount lunch = Num 200 \<and> safe (500 - 200)
               \<and> less64 (Num (500 - 200)) (Num 0))"
    by (simp add: le64_def)
  have v: "\<not> le64 (Num 301) (Num 0)" "le64 (Num 0) (Num 0)"
    by (simp_all add: le64_def)
  show ?thesis
    using h v ApplyPayment_rejects_bad_amount [OF h, of tick "[]" "[lunch, taxi]"]
      ApplyPayment_rejects_bad_amount [OF h0, of tick "[]" "[lunch, taxi]"]
    by (simp add: prod_eq_iff)
qed

section \<open>Marking a record as paid\<close>

text \<open>
  C5. \<open>markAsPaid\<close> on the id of the record \<open>r\<close> at position \<open>i\<close> puts \<open>r\<close> with
  \<open>status = Paid\<close> at that position and changes no other field: \<open>paidAmount\<close> and
  \<open>paymentHistory\<close> are those of \<open>r\<close>. So a record with \<open>paidAmount < amount\<close> is
  afterwards \<open>Paid\<close> with \<open>paidAmount < amount\<close> still.
\<close>

theorem markAsPaid_sets_status_only:
  assumes "i < length records" and "records ! i = r"
  shows "length (fst (markAsPaid (id_rec r) records)) = length records
         \<and> fst (markAsPaid (id_rec r) records) ! i = r\<lparr>status := Paid\<rparr>
         \<and> status (fst (markAsPaid (id_rec r) records) ! i) = Paid
         \<and> paidAmount (fst (markAsPaid (id_rec r) records) ! i) = paidAmount r
         \<and> paymentHistory (fst (markAsPaid (id_rec r) records) ! i) = paymentHistory r
         \<and> (less64 (paidAmount r) (amount r) \<longrightarrow>
              status (fst (markAsPaid (id_rec r) records) ! i) = Paid
              \<and> less64 (paidAmount (fst (markAsPaid (id_rec r) records) ! i))
                  (amount (fst (markAsPaid (id_rec r) records) ! i)))"
  using assms by (simp add: markAsPaid_def)

theorem markAsPaid_sets_status_only_witness:
  "fst (markAsPaid (id_rec lunch) [taxi, lunch]) ! 1 = lunch\<lparr>status := Paid\<rparr>
   \<and> status (fst (markAsPaid (id_rec lunch) [taxi, lunch]) ! 1) = Paid
   \<and> paidAmount (fst (markAsPaid (id_rec lunch) [taxi, lunch]) ! 1) = Num 200
   \<and> amount (fst (markAsPaid (id_rec lunch) [taxi, lunch]) ! 1) = Num 500"
proof -
  have h: "(1::nat) < length [taxi, lunch]" "[taxi, lunch] ! 1 = lunch"
    by simp_all
  show ?thesis
    using markAsPaid_sets_status_only [OF h] by (simp add: lunch_def)
qed

section \<open>Ids that are not in the store\<close>

text \<open>
  C6, as the claim states it, fails: with an id that no record has, none of the three
  handlers reports a failure, and \<open>deleteRecord\<close> raises its usual toast.
\<close>

theorem missing_id_counterexample:
  "js ''9'' \<notin> id_rec ` set [lunch, taxi]
   \<and> \<not> failed (snd (handlePartialPayment tick (js ''9'') (Num 50) None [lunch, taxi]))
   \<and> \<not> failed (snd (markAsPaid (js ''9'') [lunch, taxi]))
   \<and> \<not> failed (snd (deleteRecord (js ''9'') [lunch, taxi]))
   \<and> snd (deleteRecord (js ''9'') [lunch, taxi]) = Some RecordDeleted"
  by (simp add: handlePartialPayment_def markAsPaid_def deleteRecord_def lunch_def taxi_def js_def)

text \<open>
  C6, amended. With an id that no record of the store has, \<open>handlePartialPayment\<close>,
  \<open>markAsPaid\<close> and \<open>deleteRecord\<close> leave the record list as it was and report no
  failure; the first two raise no toast at all.
\<close>

theorem missing_id_is_silent_no_op:
  assumes "recordId \<notin> id_rec ` set records"
  shows "handlePartialPayment clk recordId a n records = (records, None)
         \<and> markAsPaid recordId records = (records, None)
         \<and> fst (deleteRecord recordId records) = records
         \<and> \<not> failed (snd (deleteRecord recordId records))"
proof -
  have "filter (\<lambda>record. id_rec record \<noteq> recordId) records = records"
    using assms by (auto simp: filter_id_conv)
  then show ?thesis
    using assms
    by (simp add: handlePartialPayment_def markAsPaid_def deleteRecord_def
        mapPayment_absent mark_map_absent find_absent)
qed

theorem missing_id_is_silent_no_op_witness:
  "js ''9'' \<notin> id_rec ` set [lunch, taxi]
   \<and> handlePartialPayment tick (js ''9'') (Num 50) None [lunch, taxi] = ([lunch, taxi], None)
   \<and> markAsPaid (js ''9'') [lunch, taxi] = ([lunch, taxi], None)
   \<and> fst (deleteRecord (js ''9'') [lunch, taxi]) = [lunch, taxi]"
proof -
  have h: "js ''9'' \<notin> id_rec ` set [lunch, taxi]"
    by (simp add: lunch_def taxi_def js_def)
  show ?thesis
    using h missing_id_is_silent_no_op [OF h, of tick "Num 50" None] by simp
qed

section \<open>The accounting invariant\<close>

text \<open>
  C3, as the claim states it, fails: after adding a record of \<open>2^53 + 2\<close> and paying
  \<open>2^53\<close> and then 1, the paid amount is \<open>2^53\<close> and the history holds \<open>2^53\<close> and 1.
\<close>

theorem paidAmount_rounding_counterexample:
  "map paidAmount (run asciiLower scenario_grand) = [Num 9007199254740992]
   \<and> map (\<lambda>r. map amount_pay (paymentHistory r)) (run asciiLower scenario_grand)
       = [[Num 9007199254740992, Num 1]]"
  by (simp add: scenario_grand_def form_grand_def eval_defs eval_numbers)

text \<open>
  C3, amended. After any sequence of add-form submissions, contact views and
  payment-dialog submissions, started from the empty store, in which the submitted
  payments are whole numbers with magnitudes adding up to less than \<open>2^53\<close>, every record
  of the store has whole payment amounts in its history and \<open>paidAmount\<close> equal to their
  sum.
\<close>

theorem paidAmount_is_sum_of_history:
  assumes "list_all whole_payment actions"
    and "sum_list (map payment_size actions) < 2 ^ 53"
    and "r \<in> set (run lc actions)"
  shows "list_all (\<lambda>e. whole (amount_pay e)) (paymentHistory r)
         \<and> paidAmount r = Num (sum_list (map (\<lambda>e. val (amount_pay e)) (paymentHistory r)))"
proof -
  have "list_all (within_budget (0 + sum_list (map payment_size actions))) (foldl (step lc) [] actions)"
    using assms(1,2) by (intro foldl_step_keeps_budget) simp_all
  with assms(3) have "within_budget (sum_list (map payment_size actions)) r"
    by (simp add: run_def list_all_iff)
  then show ?thesis
    by (simp add: within_budget_def paid_is_history_sum_def)
qed

theorem paidAmount_is_sum_of_history_witness:
  "list_all whole_payment scenario \<and> sum_list (map payment_size scenario) = 500
   \<and> run asciiLower scenario \<noteq> [] \<and> hd (run asciiLower scenario) \<in> set (run asciiLower scenario)
   \<and> paidAmount (hd (run asciiLower scenario)) = Num 500
   \<and> sum_list (map (\<lambda>e. val (amount_pay e)) (paymentHistory (hd (run asciiLower scenario)))) = 500
   \<and> length (paymentHistory (hd (run asciiLower scenario))) = 2"
proof -
  have h: "list_all whole_payment scenario" "sum_list (map payment_size scenario) < 2 ^ 53"
    by (simp_all add: scenario_def)
  have s: "sum_list (map payment_size scenario) = 500"
    by (simp add: scenario_def)
  have v: "run asciiLower scenario \<noteq> []" "paidAmount (hd (run asciiLower scenario)) = Num 500"
    "length (paymentHistory (hd (run asciiLower scenario))) = 2"
    by (simp_all add: scenario_def form_rahul_def eval_defs eval_numbers
        ContactDetailView_render_def normalizeName_def asciiLower_def)
  then have m: "hd (run asciiLower scenario) \<in> set (run asciiLower scenario)"
    by simp
  show ?thesis
    using h(1) s v m paidAmount_is_sum_of_history [OF h m] by simp
qed

section \<open>Adding a record\<close>

text \<open>
  C7. The claim is what the form is meant to do and the code misses it: a name of white
  space only passes the guard, which runs before the name is trimmed, and is stored as
  the empty name; a negative amount passes the guard, which tests for zero only, and is
  stored.
\<close>

theorem Add_accepts_blank_name_and_negative_amount:
  "borrowerName_in form_blank = Some (js '' '') \<and> trim (js '' '') = []
   \<and> \<not> failed (snd (Add tick form_blank []))
   \<and> map borrowerName (fst (Add tick form_blank [])) = [[]]
   \<and> amount_in form_negative = Some (Num (- 5))
   \<and> \<not> failed (snd (Add tick form_negative []))
   \<and> map amount (fst (Add tick form_negative [])) = [Num (- 5)]"
  by (simp add: form_blank_def form_negative_def eval_defs eval_numbers)

text \<open>
  C8, as the claim states it, fails in the freshness of the id: two submissions that read
  the same clock value get the same id.
\<close>

theorem Add_id_not_fresh_counterexample:
  "\<not> failed (snd (Add tick form_rahul []))
   \<and> \<not> failed (snd (Add tick form_rahul (fst (Add tick form_rahul []))))
   \<and> map id_rec (fst (Add tick form_rahul (fst (Add tick form_rahul []))))
       = [js ''1700000000000'', js ''1700000000000'']"
  by (simp add: form_rahul_def Add_def AddRecordForm_handleSubmit_def handleAddRecord_def
      falsy_string_def falsy_number_def falsy_def tick_def toString_def digits.simps js_def
      Let_def)

text \<open>
  C8, amended. An add-form submission with a non-empty name, an amount that is neither
  missing, zero nor \<open>NaN\<close>, and a non-empty reason puts a new record in front of the
  unchanged list of the records stored before. The new record is pending, has
  \<open>paidAmount = 0\<close> and an empty history, and its name is the input without its leading and
  trailing white space. Its id is the decimal rendering of the clock reading; it differs
  from the id of every stored record whose id is the decimal rendering of another
  number.
\<close>

theorem Add_prepends_new_record:
  assumes "borrowerName_in formData = Some nm" and "nm \<noteq> []"
    and "amount_in formData = Some a" and "\<not> falsy a"
    and "reason_in formData = Some rs" and "rs \<noteq> []"
  shows "\<exists>r. Add clk formData records = (r # records, Some RecordAdded)
           \<and> status r = Pending \<and> paidAmount r = Num 0 \<and> paymentHistory r = []
           \<and> amount r = a \<and> reason r = rs
           \<and> borrowerName r = trim nm
           \<and> (\<exists>pre suf. nm = pre @ borrowerName r @ suf
                \<and> list_all isWhiteSpace pre \<and> list_all isWhiteSpace suf)
           \<and> (borrowerName r \<noteq> [] \<longrightarrow>
                \<not> isWhiteSpace (hd (borrowerName r)) \<and> \<not> isWhiteSpace (last (borrowerName r)))
           \<and> id_rec r = toString (clk 0)
           \<and> (\<forall>x \<in> set records. \<forall>t. id_rec x = toString t \<and> t \<noteq> clk 0
                 \<longrightarrow> id_rec x \<noteq> id_rec r)
           \<and> (\<exists>k. createdAt r = clk k)"
proof -
  let ?r = "hd (fst (handleAddRecord clk formData records))"
  have run: "Add clk formData records = handleAddRecord clk formData records"
    using assms
    by (simp add: Add_def AddRecordForm_handleSubmit_def falsy_string_def falsy_number_def)
  have res: "handleAddRecord clk formData records = (?r # records, Some RecordAdded)"
    by (simp add: handleAddRecord_def Let_def)
  have fields: "status ?r = Pending" "paidAmount ?r = Num 0" "paymentHistory ?r = []"
    "amount ?r = a" "reason ?r = rs" "borrowerName ?r = trim nm"
    "id_rec ?r = toString (clk 0)"
    using assms(1,3,4,5) by (simp_all add: handleAddRecord_def Let_def)
  have created: "\<exists>k. createdAt ?r = clk k"
    by (cases "lentDate_in formData") (auto simp add: handleAddRecord_def Let_def)
  have fresh: "\<forall>x \<in> set records. \<forall>t. id_rec x = toString t \<and> t \<noteq> clk 0
                 \<longrightarrow> id_rec x \<noteq> toString (clk 0)"
    using toString_inject by auto
  show ?thesis
    apply (rule exI [of _ ?r])
    apply (simp only: run fields)
    using res trim_decomposition [of nm] trim_ends [of nm] fresh created
    apply simp
    done
qed

theorem Add_prepends_new_record_witness:
  "\<exists>r. Add tick form_rahul [lunch, taxi] = (r # [lunch, taxi], Some RecordAdded)
      \<and> status r = Pending \<and> paidAmount r = Num 0 \<and> paymentHistory r = []
      \<and> amount r = Num 500 \<and> borrowerName r = js ''Rahul''
      \<and> id_rec r = js ''1700000000000''
      \<and> id_rec lunch \<noteq> id_rec r \<and> id_rec taxi \<noteq> id_rec r"
proof -
  have h: "borrowerName_in form_rahul = Some (js '' Rahul '')" "js '' Rahul '' \<noteq> []"
    "amount_in form_rahul = Some (Num 500)" "\<not> falsy (Num 500)"
    "reason_in form_rahul = Some (js ''Lunch'')" "js ''Lunch'' \<noteq> []"
    by (simp_all add: form_rahul_def js_def falsy_def)
  have v: "trim (js '' Rahul '') = js ''Rahul''" "toString (tick 0) = js ''1700000000000''"
    by (simp_all add: js_def trim_def isWhiteSpace_def tick_def toString_def digits.simps)
  have ids: "id_rec lunch = toString 1 \<and> 1 \<noteq> tick 0" "id_rec taxi = toString 7 \<and> 7 \<noteq> tick 0"
    by (simp_all add: lunch_def taxi_def js_def tick_def toString_def digits.simps)
  from Add_prepends_new_record [where clk = tick and records = "[lunch, taxi]", OF h]
  obtain r where r: "Add tick form_rahul [lunch, taxi] = (r # [lunch, taxi], Some RecordAdded)"
    "status r = Pending" "paidAmount r = Num 0" "paymentHistory r = []"
    "amount r = Num 500" "borrowerName r = trim (js '' Rahul '')"
    "id_rec r = toString (tick 0)"
    "\<forall>x \<in> set [lunch, taxi]. \<forall>t. id_rec x = toString t \<and> t \<noteq> tick 0 \<longrightarrow> id_rec x \<noteq> id_rec r"
    by (elim exE conjE) 
  from r(8) ids have "id_rec lunch \<noteq> id_rec r" "id_rec taxi \<noteq> id_rec r"
    by (simp_all del: One_nat_def)
  with r(1-7) show ?thesis
    by (intro exI [of _ r]) (simp add: v)
qed

section \<open>Borrower summaries\<close>

text \<open>
  C9, as the claim states it, fails in the sums: two records of one borrower with the
  amounts \<open>2^53\<close> and 1 give the total \<open>2^53\<close>.
\<close>

theorem borrowerSummaries_rounding_counterexample:
  "borrowerSummaries asciiLower [whale, penny]
     = Some [\<lparr>name = js ''Vik'', totalOwed = Num 9007199254740992,
              totalBorrowed = Num 9007199254740992, recordCount = 2, lastBorrowed = 500\<rparr>]
   \<and> val (amount whale) + val (amount penny) = 9007199254740993"
  by (simp add: borrowerSummaries_def sort_by_owed_def map_values_def summaryStep_def
      normalizeName_def asciiLower_def trim_def isWhiteSpace_def js_def whale_def penny_def
      eval_numbers)

text \<open>
  C9, amended. For every record collection whose amounts and paid amounts are whole
  numbers with magnitudes adding up to less than \<open>2^53\<close>, \<open>borrowerSummaries\<close> returns one
  summary for each identity class, the classes being the distinct identities (trimmed,
  lower-cased, white-space runs collapsed) of the names of the records. The summary of a
  class has the trimmed name of the first record of the class, the number of its records,
  the sum of their amounts, the sum of \<open>amount - paidAmount\<close> over its pending records and
  the greatest \<open>lentDate\<close>. The result is the list of these summaries, taken in the order
  in which the classes first occur and sorted stably by descending \<open>totalOwed\<close>: it is
  descending, and summaries with equal \<open>totalOwed\<close> stand in first-seen order.
\<close>

theorem borrowerSummaries_groups_and_sorts:
  assumes "whole_ledger records" and "magnitude records < 2 ^ 53"
  shows "borrowerSummaries lc records
           = Some (sort_key (\<lambda>s. - val (totalOwed s)) (spec_summaries lc records))
   \<and> distinct (identity_classes lc records)
   \<and> set (identity_classes lc records) = (\<lambda>r. spec_identity lc (borrowerName r)) ` set records
   \<and> (\<exists>out. borrowerSummaries lc records = Some out
         \<and> length out = length (identity_classes lc records)
         \<and> sorted_wrt (\<lambda>s t. val (totalOwed s) \<ge> val (totalOwed t)) out
         \<and> (\<forall>v. filter (\<lambda>s. val (totalOwed s) = v) out
                  = filter (\<lambda>s. val (totalOwed s) = v) (spec_summaries lc records)))"
proof -
  let ?out = "sort_key (\<lambda>s. - val (totalOwed s)) (spec_summaries lc records)"
  have grouped: "map_values (foldl (summaryStep lc) [] records) = spec_summaries lc records"
    by (simp add: map_values_def reduce_is_grouping [OF assms] spec_summaries_def comp_def)
  have "list_all (\<lambda>s. whole (totalOwed s)) (spec_summaries lc records)"
    by (simp add: spec_summaries_def class_summary_def list_all_iff)
  then have eq: "borrowerSummaries lc records = Some ?out"
    by (simp add: borrowerSummaries_def grouped sort_by_owed_whole)
  have "sorted (map (\<lambda>s. - val (totalOwed s)) ?out)"
    by (rule sorted_sort_key)
  then have desc: "sorted_wrt (\<lambda>s t. val (totalOwed s) \<ge> val (totalOwed t)) ?out"
    by (simp add: sorted_wrt_map)
  have stable: "filter (\<lambda>s. val (totalOwed s) = v) ?out
                  = filter (\<lambda>s. val (totalOwed s) = v) (spec_summaries lc records)" for v
    using sort_key_stable [of "\<lambda>s. - val (totalOwed s)" "- v" "spec_summaries lc records"]
    by simp
  have len: "length ?out = length (identity_classes lc records)"
    by (simp add: spec_summaries_def)
  show ?thesis
    using eq desc stable len by (simp add: identity_classes_def)
qed

theorem borrowerSummaries_groups_and_sorts_witness:
  "whole_ledger [taxi, lunch, coffee] \<and> magnitude [taxi, lunch, coffee] = 850
   \<and> borrowerSummaries asciiLower [taxi, lunch, coffee]
     = Some [\<lparr>name = js ''Rahul'', totalOwed = Num 300, totalBorrowed = Num 500, recordCount = 1,
          lastBorrowed = 100\<rparr>,
        \<lparr>name = js ''Amit  Kumar'', totalOwed = Num 150, totalBorrowed = Num 150, recordCount = 2,
          lastBorrowed = 300\<rparr>]"
proof -
  have h: "whole_ledger [taxi, lunch, coffee]" "magnitude [taxi, lunch, coffee] < 2 ^ 53"
    by (simp_all add: whole_ledger_def magnitude_def lunch_def taxi_def coffee_def)
  have m: "magnitude [taxi, lunch, coffee] = 850"
    by (simp add: magnitude_def lunch_def taxi_def coffee_def)
  have keys: "spec_identity asciiLower (borrowerName taxi) = js ''amit kumar''"
    "spec_identity asciiLower (borrowerName coffee) = js ''amit kumar''"
    "spec_identity asciiLower (borrowerName lunch) = js ''rahul''"
    by (simp_all add: spec_identity_def spec_trim_def asciiLower_def isWhiteSpace_def js_def
        taxi_def coffee_def lunch_def)
  have ne: "js ''amit kumar'' \<noteq> js ''rahul''"
    by (simp add: js_def)
  have spec: "spec_summaries asciiLower [taxi, lunch, coffee]
     = [\<lparr>name = js ''Amit  Kumar'', totalOwed = Num 150, totalBorrowed = Num 150, recordCount = 2,
          lastBorrowed = 300\<rparr>,
        \<lparr>name = js ''Rahul'', totalOwed = Num 300, totalBorrowed = Num 500, recordCount = 1,
          lastBorrowed = 100\<rparr>]"
    using ne
    apply (simp add: spec_summaries_def identity_classes_def class_members_def keys)
    apply (simp add: class_summary_def taxi_def coffee_def lunch_def spec_trim_def
        isWhiteSpace_def js_def)
    done
  show ?thesis
    using h(1) m borrowerSummaries_groups_and_sorts [OF h, of asciiLower]
    by (simp add: spec)
qed

end
